theory Spec2Isabelle
  imports Main
begin

section \<open>Python values used by the boards\<close>

text \<open>
  The exceptions that the modelled code can raise: \<open>IndexError\<close> from list and string
  indexing, \<open>ValueError\<close> from \<open>int()\<close>.
\<close>

datatype py_error = IndexError | ValueError

text \<open>
  What a method call hands back to its caller. None of the board methods of \<open>app.py\<close>
  has a \<open>return\<close> statement with a value, so they all return \<open>None\<close>.
\<close>

datatype py_value = PyNone | PyBool bool

text \<open>The colour strings \<open>'white'\<close> and \<open>'black'\<close>; no other colour is ever constructed.\<close>

datatype color = White | Black

text \<open>
  The subclasses of \<open>ChessPiece\<close>; every instance carries its colour and nothing else that
  changes (the \<open>symbol\<close> is a function of class and colour).
\<close>

datatype ChessPiece =
    King color | Queen color | Rook color | Bishop color | Knight color | Pawn color

text \<open>Class \<open>CheckersPiece\<close>: \<open>__init__(color, is_king=False)\<close> and \<open>promote\<close>.\<close>

record CheckersPiece =
  color :: color
  is_king :: bool

definition new_CheckersPiece :: "color \<Rightarrow> CheckersPiece" where
  "new_CheckersPiece c = \<lparr>color = c, is_king = False\<rparr>"

definition promote :: "CheckersPiece \<Rightarrow> CheckersPiece" where
  "promote piece = piece\<lparr>is_king := True\<rparr>"

section \<open>Grids: lists of rows with Python indexing\<close>

text \<open>
  A grid is a list of rows, a cell is \<open>None\<close> or a piece. Coordinates are Python integers:
  an index \<open>i\<close> with \<open>-n \<le> i < 0\<close> counts from the end of a list of length \<open>n\<close>, any
  index outside \<open>-n \<le> i < n\<close> raises \<open>IndexError\<close>.

  Every row is created by its own \<open>[None] * n\<close>, a snapshot is a \<open>copy.deepcopy\<close>, and a
  move hands the piece reference from one cell to another, so no two cells, rows or
  grids ever share an object: rows and pieces are modelled by value. Chess pieces are
  never written to. Checkers pieces are (\<open>promote\<close>); for them the board is modelled a
  second time with the pieces as objects of a store, and the last section proves that the
  two models agree on every sequence of calls from the initial board.
\<close>

type_synonym pos = "int \<times> int"

type_synonym 'p grid = "'p option list list"

definition py_index :: "nat \<Rightarrow> int \<Rightarrow> nat option" where
  "py_index n i =
     (if 0 \<le> i \<and> i < int n then Some (nat i)
      else if - int n \<le> i \<and> i < 0 then Some (nat (int n + i))
      else None)"

definition grid_get :: "'p grid \<Rightarrow> pos \<Rightarrow> py_error + 'p option" where
  "grid_get g p =
     (case py_index (length g) (fst p) of
        None \<Rightarrow> Inl IndexError
      | Some r \<Rightarrow>
          (case py_index (length (g ! r)) (snd p) of
             None \<Rightarrow> Inl IndexError
           | Some c \<Rightarrow> Inr (g ! r ! c)))"

definition grid_set :: "'p grid \<Rightarrow> pos \<Rightarrow> 'p option \<Rightarrow> py_error + 'p grid" where
  "grid_set g p v =
     (case py_index (length g) (fst p) of
        None \<Rightarrow> Inl IndexError
      | Some r \<Rightarrow>
          (case py_index (length (g ! r)) (snd p) of
             None \<Rightarrow> Inl IndexError
           | Some c \<Rightarrow> Inr (g[r := (g ! r)[c := v]])))"

text \<open>\<open>copy.deepcopy\<close> of a grid of values is the grid.\<close>

definition deepcopy :: "'p grid \<Rightarrow> 'p grid" where
  "deepcopy g = g"

text \<open>
  The three board classes have the same two attributes: \<open>board\<close>, the live grid, and
  \<open>move_history\<close>, a list used as a stack (\<open>append\<close> at the end, \<open>pop\<close> from the end).
\<close>

record 'p Board =
  board :: "'p grid"
  move_history :: "'p grid list"

type_synonym ChessBoard = "ChessPiece Board"
type_synonym HexChessBoard = "ChessPiece Board"
type_synonym CheckersBoard = "CheckersPiece Board"

text \<open>
  How a call of \<open>move_piece\<close> ends: \<open>Applied\<close> is the \<open>if\<close> branch run to its end,
  \<open>Rejected\<close> is the \<open>else\<close> branch (the message is printed), \<open>Raised\<close> is an exception
  leaving the method. The state returned with \<open>Raised\<close> is the state at the raise.
\<close>

datatype move_outcome = Applied | Rejected | Raised py_error

section \<open>ChessBoard\<close>

definition ChessBoard_is_valid_move :: "ChessBoard \<Rightarrow> ChessPiece \<Rightarrow> pos \<Rightarrow> pos \<Rightarrow> bool" where
  "ChessBoard_is_valid_move self piece start end = True"

definition ChessBoard_move_piece :: "ChessBoard \<Rightarrow> pos \<Rightarrow> pos \<Rightarrow> move_outcome \<times> ChessBoard" where
  "ChessBoard_move_piece self start end =
     (case grid_get (board self) start of
        Inl e \<Rightarrow> (Raised e, self)
      | Inr None \<Rightarrow> (Rejected, self)
      | Inr (Some piece) \<Rightarrow>
          if ChessBoard_is_valid_move self piece start end then
            (let s1 = self\<lparr>move_history := move_history self @ [deepcopy (board self)]\<rparr> in
             case grid_set (board s1) end (Some piece) of
               Inl e \<Rightarrow> (Raised e, s1)
             | Inr g1 \<Rightarrow>
                 (case grid_set g1 start None of
                    Inl e \<Rightarrow> (Raised e, s1\<lparr>board := g1\<rparr>)
                  | Inr g2 \<Rightarrow> (Applied, s1\<lparr>board := g2\<rparr>)))
          else (Rejected, self))"

definition ChessBoard_undo_move :: "ChessBoard \<Rightarrow> py_value \<times> ChessBoard" where
  "ChessBoard_undo_move self =
     (if move_history self \<noteq> [] then
        (PyNone, self\<lparr>board := last (move_history self),
                       move_history := butlast (move_history self)\<rparr>)
      else (PyNone, self))"

text \<open>
  \<open>create_initial_board\<close>: the empty grid is \<open>[[None] * n for _ in range(n)]\<close>; the
  assignments \<open>board[r][c] = piece\<close> of the loops have literal in-range indices.
\<close>

definition empty_grid :: "nat \<Rightarrow> 'p grid" where
  "empty_grid n = replicate n (replicate n None)"

definition put :: "'p grid \<Rightarrow> nat \<Rightarrow> nat \<Rightarrow> 'p \<Rightarrow> 'p grid" where
  "put g r c v = g[r := (g ! r)[c := Some v]]"

definition piece_order :: "(color \<Rightarrow> ChessPiece) list" where
  "piece_order = [Rook, Knight, Bishop, Queen, King, Bishop, Knight, Rook]"

definition ChessBoard_create_initial_board :: "ChessPiece grid" where
  "ChessBoard_create_initial_board =
     fold (\<lambda>i b. put (put (put (put b 0 i ((piece_order ! i) Black))
                                 7 i ((piece_order ! i) White))
                            1 i (Pawn Black))
                       6 i (Pawn White))
          [0..<8] (empty_grid 8)"

definition ChessBoard_init :: ChessBoard where
  "ChessBoard_init = \<lparr>board = ChessBoard_create_initial_board, move_history = []\<rparr>"

section \<open>HexChessBoard\<close>

definition HexChessBoard_create_initial_board :: "ChessPiece grid" where
  "HexChessBoard_create_initial_board =
     fold (\<lambda>i b. put (put (put (put b 0 (i + 2) ((piece_order ! i) Black))
                                 10 (i + 2) ((piece_order ! i) White))
                            1 (i + 2) (Pawn Black))
                       9 (i + 2) (Pawn White))
          [0..<8] (empty_grid 11)"

definition HexChessBoard_init :: HexChessBoard where
  "HexChessBoard_init = \<lparr>board = HexChessBoard_create_initial_board, move_history = []\<rparr>"

definition HexChessBoard_is_valid_move ::
  "HexChessBoard \<Rightarrow> ChessPiece \<Rightarrow> pos \<Rightarrow> pos \<Rightarrow> bool" where
  "HexChessBoard_is_valid_move self piece start end = True"

definition HexChessBoard_move_piece ::
  "HexChessBoard \<Rightarrow> pos \<Rightarrow> pos \<Rightarrow> move_outcome \<times> HexChessBoard" where
  "HexChessBoard_move_piece self start end =
     (case grid_get (board self) start of
        Inl e \<Rightarrow> (Raised e, self)
      | Inr None \<Rightarrow> (Rejected, self)
      | Inr (Some piece) \<Rightarrow>
          if HexChessBoard_is_valid_move self piece start end then
            (let s1 = self\<lparr>move_history := move_history self @ [deepcopy (board self)]\<rparr> in
             case grid_set (board s1) end (Some piece) of
               Inl e \<Rightarrow> (Raised e, s1)
             | Inr g1 \<Rightarrow>
                 (case grid_set g1 start None of
                    Inl e \<Rightarrow> (Raised e, s1\<lparr>board := g1\<rparr>)
                  | Inr g2 \<Rightarrow> (Applied, s1\<lparr>board := g2\<rparr>)))
          else (Rejected, self))"

definition HexChessBoard_undo_move :: "HexChessBoard \<Rightarrow> py_value \<times> HexChessBoard" where
  "HexChessBoard_undo_move self =
     (if move_history self \<noteq> [] then
        (PyNone, self\<lparr>board := last (move_history self),
                       move_history := butlast (move_history self)\<rparr>)
      else (PyNone, self))"

section \<open>CheckersBoard\<close>

definition CheckersBoard_create_initial_board :: "CheckersPiece grid" where
  "CheckersBoard_create_initial_board =
     (let b1 = fold (\<lambda>i b. fold (\<lambda>j b. if (i + j) mod 2 = 1
                                          then put b i j (new_CheckersPiece Black) else b)
                                  [0..<8] b)
                    [0..<3] (empty_grid 8)
      in fold (\<lambda>i b. fold (\<lambda>j b. if (i + j) mod 2 = 1
                                     then put b i j (new_CheckersPiece White) else b)
                             [0..<8] b)
              [5..<8] b1)"

definition CheckersBoard_init :: CheckersBoard where
  "CheckersBoard_init = \<lparr>board = CheckersBoard_create_initial_board, move_history = []\<rparr>"

text \<open>
  \<open>is_valid_move\<close> of the checkers board writes to the grid (it clears the jumped cell), so
  it returns the board with its verdict. \<open>abs(dx) == abs(dy) in [1, 2]\<close> is Python's chained
  comparison: \<open>abs(dx) == abs(dy) and abs(dy) in [1, 2]\<close>. \<open>//\<close> is floor division, as
  \<open>div\<close> is on \<open>int\<close>.
\<close>

definition CheckersBoard_is_valid_move ::
  "CheckersBoard \<Rightarrow> CheckersPiece \<Rightarrow> pos \<Rightarrow> pos \<Rightarrow> py_error + bool \<times> CheckersBoard" where
  "CheckersBoard_is_valid_move self piece start end =
     (let x1 = fst start; y1 = snd start; x2 = fst end; y2 = snd end;
          dx = x2 - x1; dy = y2 - y1
      in case grid_get (board self) (x2, y2) of
           Inl e \<Rightarrow> Inl e
         | Inr (Some occupant) \<Rightarrow> Inr (False, self)
         | Inr None \<Rightarrow>
             if is_king piece then Inr (\<bar>dx\<bar> = \<bar>dy\<bar> \<and> \<bar>dy\<bar> \<in> {1, 2}, self)
             else
               (let direction = (if color piece = White then - 1 else 1) in
                if dx = direction \<and> \<bar>dy\<bar> = 1 then Inr (True, self)
                else if dx = 2 * direction \<and> \<bar>dy\<bar> = 2 then
                  (let mid = ((x1 + x2) div 2, (y1 + y2) div 2) in
                   case grid_get (board self) mid of
                     Inl e \<Rightarrow> Inl e
                   | Inr None \<Rightarrow> Inr (False, self)
                   | Inr (Some jumped) \<Rightarrow>
                       if color jumped \<noteq> color piece then
                         (case grid_set (board self) mid None of
                            Inl e \<Rightarrow> Inl e
                          | Inr g \<Rightarrow> Inr (True, self\<lparr>board := g\<rparr>))
                       else Inr (False, self))
                else Inr (False, self)))"

text \<open>
  \<open>piece.promote()\<close> writes to the piece object; after the two cell assignments the only
  cell that can refer to that object is the end cell, where the write is seen.
\<close>

definition promote_at :: "CheckersPiece grid \<Rightarrow> pos \<Rightarrow> CheckersPiece grid" where
  "promote_at g p =
     (case grid_get g p of
        Inr (Some piece) \<Rightarrow>
          (case grid_set g p (Some (promote piece)) of Inr g' \<Rightarrow> g' | Inl e \<Rightarrow> g)
      | _ \<Rightarrow> g)"

definition CheckersBoard_move_piece ::
  "CheckersBoard \<Rightarrow> pos \<Rightarrow> pos \<Rightarrow> move_outcome \<times> CheckersBoard" where
  "CheckersBoard_move_piece self start end =
     (case grid_get (board self) start of
        Inl e \<Rightarrow> (Raised e, self)
      | Inr None \<Rightarrow> (Rejected, self)
      | Inr (Some piece) \<Rightarrow>
          (case CheckersBoard_is_valid_move self piece start end of
             Inl e \<Rightarrow> (Raised e, self)
           | Inr (False, s0) \<Rightarrow> (Rejected, s0)
           | Inr (True, s0) \<Rightarrow>
               (let s1 = s0\<lparr>move_history := move_history s0 @ [deepcopy (board s0)]\<rparr> in
                case grid_set (board s1) end (Some piece) of
                  Inl e \<Rightarrow> (Raised e, s1)
                | Inr g1 \<Rightarrow>
                    (case grid_set g1 start None of
                       Inl e \<Rightarrow> (Raised e, s1\<lparr>board := g1\<rparr>)
                     | Inr g2 \<Rightarrow>
                         if (color piece = White \<and> fst end = 0)
                            \<or> (color piece = Black \<and> fst end = 7)
                         then (Applied, s1\<lparr>board := promote_at g2 end\<rparr>)
                         else (Applied, s1\<lparr>board := g2\<rparr>)))))"

definition CheckersBoard_undo_move :: "CheckersBoard \<Rightarrow> py_value \<times> CheckersBoard" where
  "CheckersBoard_undo_move self =
     (if move_history self \<noteq> [] then
        (PyNone, self\<lparr>board := last (move_history self),
                       move_history := butlast (move_history self)\<rparr>)
      else (PyNone, self))"

section \<open>CheckersBoard with piece objects\<close>

text \<open>
  \<open>CheckersPiece\<close> is the one class of pieces whose objects are written to after their
  creation (\<open>promote\<close>). To speak of one and the same piece object before and after a call,
  the checkers board is modelled a second time with its pieces in a store: \<open>objects\<close> is
  the list of the piece objects created so far, a reference is the position of an object
  in that list, and the cells of the grid and of the snapshots hold references.

  \<open>copy.deepcopy\<close> walks the rows in order and creates one new object for every piece
  object it meets, with the same attribute values; its memo makes a piece that is met
  twice be copied once.
\<close>

type_synonym ref = nat

record CheckersStore =
  objects :: "CheckersPiece list"
  obj_board :: "ref grid"
  obj_move_history :: "ref grid list"

fun deepcopy_cell ::
  "(ref \<times> ref) list \<times> CheckersPiece list \<Rightarrow> ref option \<Rightarrow>
   ref option \<times> (ref \<times> ref) list \<times> CheckersPiece list" where
  "deepcopy_cell (memo, h) None = (None, memo, h)"
| "deepcopy_cell (memo, h) (Some a) =
     (case map_of memo a of
        Some b \<Rightarrow> (Some b, memo, h)
      | None \<Rightarrow> (Some (length h), (a, length h) # memo, h @ [h ! a]))"

fun deepcopy_row ::
  "(ref \<times> ref) list \<times> CheckersPiece list \<Rightarrow> ref option list \<Rightarrow>
   ref option list \<times> (ref \<times> ref) list \<times> CheckersPiece list" where
  "deepcopy_row c [] = ([], c)"
| "deepcopy_row c (x # xs) =
     (case deepcopy_cell c x of
        (y, c1) \<Rightarrow> (case deepcopy_row c1 xs of (ys, c2) \<Rightarrow> (y # ys, c2)))"

fun deepcopy_rows ::
  "(ref \<times> ref) list \<times> CheckersPiece list \<Rightarrow> ref grid \<Rightarrow>
   ref grid \<times> (ref \<times> ref) list \<times> CheckersPiece list" where
  "deepcopy_rows c [] = ([], c)"
| "deepcopy_rows c (row # rows) =
     (case deepcopy_row c row of
        (row', c1) \<Rightarrow> (case deepcopy_rows c1 rows of (rows', c2) \<Rightarrow> (row' # rows', c2)))"

definition obj_deepcopy :: "CheckersPiece list \<Rightarrow> ref grid \<Rightarrow> ref grid \<times> CheckersPiece list" where
  "obj_deepcopy h g = (case deepcopy_rows ([], h) g of (g', memo, h') \<Rightarrow> (g', h'))"

definition obj_is_valid_move ::
  "CheckersStore \<Rightarrow> ref \<Rightarrow> pos \<Rightarrow> pos \<Rightarrow> py_error + bool \<times> CheckersStore" where
  "obj_is_valid_move self piece start end =
     (let x1 = fst start; y1 = snd start; x2 = fst end; y2 = snd end;
          dx = x2 - x1; dy = y2 - y1
      in case grid_get (obj_board self) (x2, y2) of
           Inl e \<Rightarrow> Inl e
         | Inr (Some occupant) \<Rightarrow> Inr (False, self)
         | Inr None \<Rightarrow>
             if is_king (objects self ! piece) then Inr (\<bar>dx\<bar> = \<bar>dy\<bar> \<and> \<bar>dy\<bar> \<in> {1, 2}, self)
             else
               (let direction = (if color (objects self ! piece) = White then - 1 else 1) in
                if dx = direction \<and> \<bar>dy\<bar> = 1 then Inr (True, self)
                else if dx = 2 * direction \<and> \<bar>dy\<bar> = 2 then
                  (let mid = ((x1 + x2) div 2, (y1 + y2) div 2) in
                   case grid_get (obj_board self) mid of
                     Inl e \<Rightarrow> Inl e
                   | Inr None \<Rightarrow> Inr (False, self)
                   | Inr (Some jumped) \<Rightarrow>
                       if color (objects self ! jumped) \<noteq> color (objects self ! piece) then
                         (case grid_set (obj_board self) mid None of
                            Inl e \<Rightarrow> Inl e
                          | Inr g \<Rightarrow> Inr (True, self\<lparr>obj_board := g\<rparr>))
                       else Inr (False, self))
                else Inr (False, self)))"

definition obj_move_piece ::
  "CheckersStore \<Rightarrow> pos \<Rightarrow> pos \<Rightarrow> move_outcome \<times> CheckersStore" where
  "obj_move_piece self start end =
     (case grid_get (obj_board self) start of
        Inl e \<Rightarrow> (Raised e, self)
      | Inr None \<Rightarrow> (Rejected, self)
      | Inr (Some piece) \<Rightarrow>
          (case obj_is_valid_move self piece start end of
             Inl e \<Rightarrow> (Raised e, self)
           | Inr (False, s0) \<Rightarrow> (Rejected, s0)
           | Inr (True, s0) \<Rightarrow>
               (case obj_deepcopy (objects s0) (obj_board s0) of
                  (snapshot, h) \<Rightarrow>
                    (let s1 = s0\<lparr>objects := h,
                                  obj_move_history := obj_move_history s0 @ [snapshot]\<rparr> in
                     case grid_set (obj_board s1) end (Some piece) of
                       Inl e \<Rightarrow> (Raised e, s1)
                     | Inr g1 \<Rightarrow>
                         (case grid_set g1 start None of
                            Inl e \<Rightarrow> (Raised e, s1\<lparr>obj_board := g1\<rparr>)
                          | Inr g2 \<Rightarrow>
                              if (color (h ! piece) = White \<and> fst end = 0)
                                 \<or> (color (h ! piece) = Black \<and> fst end = 7)
                              then (Applied, s1\<lparr>obj_board := g2,
                                                objects := h[piece := promote (h ! piece)]\<rparr>)
                              else (Applied, s1\<lparr>obj_board := g2\<rparr>))))))"

definition obj_undo_move :: "CheckersStore \<Rightarrow> py_value \<times> CheckersStore" where
  "obj_undo_move self =
     (if obj_move_history self \<noteq> [] then
        (PyNone, self\<lparr>obj_board := last (obj_move_history self),
                       obj_move_history := butlast (obj_move_history self)\<rparr>)
      else (PyNone, self))"

text \<open>
  \<open>create_initial_board\<close> with piece objects: every \<open>CheckersPiece(...)\<close> of the two loops
  creates one object, in the order of the loops.
\<close>

definition obj_create_initial_board :: "CheckersPiece list \<times> ref grid" where
  "obj_create_initial_board =
     (let b1 = fold (\<lambda>i hb. fold (\<lambda>j (h, b). if (i + j) mod 2 = 1
                                          then (h @ [new_CheckersPiece Black], put b i j (length h))
                                          else (h, b))
                                   [0..<8] hb)
                    [0..<3] ([], empty_grid 8)
      in fold (\<lambda>i hb. fold (\<lambda>j (h, b). if (i + j) mod 2 = 1
                                      then (h @ [new_CheckersPiece White], put b i j (length h))
                                      else (h, b))
                              [0..<8] hb)
              [5..<8] b1)"

definition CheckersStore_init :: CheckersStore where
  "CheckersStore_init =
     \<lparr>objects = fst obj_create_initial_board, obj_board = snd obj_create_initial_board,
      obj_move_history = []\<rparr>"

section \<open>Input strings\<close>

text \<open>
  The strings read by \<open>input()\<close> are taken to be ASCII text. \<open>str_at s k\<close> is \<open>s[k]\<close> for
  the literal indices \<open>0\<close> and \<open>1\<close> of the source, \<open>drop 1 s\<close> is \<open>s[1:]\<close>.
\<close>

definition lower_char :: "char \<Rightarrow> char" where
  "lower_char c =
     (let n = (of_char c :: nat) in if 65 \<le> n \<and> n \<le> 90 then char_of (n + 32) else c)"

definition lower :: "string \<Rightarrow> string" where
  "lower s = map lower_char s"

definition py_ord :: "char \<Rightarrow> int" where
  "py_ord c = of_char c"

definition str_at :: "string \<Rightarrow> nat \<Rightarrow> py_error + char" where
  "str_at s k = (if k < length s then Inr (s ! k) else Inl IndexError)"

text \<open>
  \<open>int(s)\<close> on an ASCII string, base ten: white space around the literal is skipped, one
  sign may precede the digits, single underscores may stand between digits, and
  anything else raises \<open>ValueError\<close>, as does a literal of more than 4300 digits (the
  default limit of CPython 3.11 and later).
\<close>

definition is_space :: "char \<Rightarrow> bool" where
  "is_space c = ((of_char c :: nat) \<in> {9, 10, 11, 12, 13, 32})"

definition digit_value :: "char \<Rightarrow> int option" where
  "digit_value c =
     (let n = (of_char c :: nat) in if 48 \<le> n \<and> n \<le> 57 then Some (int n - 48) else None)"

fun digits_value :: "int \<Rightarrow> string \<Rightarrow> int option" where
  "digits_value acc [] = Some acc"
| "digits_value acc [c] =
     (case digit_value c of None \<Rightarrow> None | Some v \<Rightarrow> Some (10 * acc + v))"
| "digits_value acc (c # d # cs) =
     (if c = CHR ''_'' then
        (case digit_value d of None \<Rightarrow> None | Some v \<Rightarrow> digits_value (10 * acc + v) cs)
      else
        (case digit_value c of None \<Rightarrow> None | Some v \<Rightarrow> digits_value (10 * acc + v) (d # cs)))"

definition py_int :: "string \<Rightarrow> py_error + int" where
  "py_int s =
     (let t = dropWhile is_space s;
          negative = (t \<noteq> [] \<and> hd t = CHR ''-'');
          u = (if t \<noteq> [] \<and> (hd t = CHR ''-'' \<or> hd t = CHR ''+'') then tl t else t);
          body = rev (dropWhile is_space (rev u))
      in case body of
           [] \<Rightarrow> Inl ValueError
         | c # cs \<Rightarrow>
             (case digit_value c of
                None \<Rightarrow> Inl ValueError
              | Some v \<Rightarrow>
                  if 4300 < length (filter (\<lambda>c. c \<noteq> CHR ''_'') body) then Inl ValueError
                  else
                    (case digits_value v cs of
                       None \<Rightarrow> Inl ValueError
                     | Some n \<Rightarrow> Inr (if negative then - n else n))))"

section \<open>ChessGame\<close>

record ChessGame =
  chess_board :: ChessBoard
  turn :: color
  move_count :: int

definition ChessGame_init :: ChessGame where
  "ChessGame_init = \<lparr>chess_board = ChessBoard_init, turn = White, move_count = 0\<rparr>"

definition ChessGame_switch_turn :: "ChessGame \<Rightarrow> ChessGame" where
  "ChessGame_switch_turn self = self\<lparr>turn := (if turn self = White then Black else White)\<rparr>"

text \<open>
  The two coordinates of \<open>play\<close>:
  \<open>8 - int(s[1]), ord(s[0].lower()) - ord('a')\<close>, evaluated left to right.
\<close>

definition ChessGame_coords :: "string \<Rightarrow> py_error + pos" where
  "ChessGame_coords s =
     (case str_at s 1 of
        Inl e \<Rightarrow> Inl e
      | Inr d \<Rightarrow>
          (case py_int [d] of
             Inl e \<Rightarrow> Inl e
           | Inr n \<Rightarrow>
               (case str_at s 0 of
                  Inl e \<Rightarrow> Inl e
                | Inr c \<Rightarrow> Inr (8 - n, py_ord (lower_char c) - py_ord CHR ''a''))))"

text \<open>
  One round of the \<open>while True\<close> loop of \<open>play\<close>, given the two strings that \<open>input()\<close>
  returns. Printing is left out. \<open>except Exception\<close> catches whatever the \<open>try\<close> block
  raises; what the block had written before the raise stays written.
\<close>

definition ChessGame_play_step :: "ChessGame \<Rightarrow> string \<Rightarrow> string \<Rightarrow> ChessGame" where
  "ChessGame_play_step self start end =
     (if lower start = ''undo'' \<or> lower end = ''undo'' then
        ChessGame_switch_turn
          (self\<lparr>chess_board := snd (ChessBoard_undo_move (chess_board self))\<rparr>)
      else
        (case ChessGame_coords start of
           Inl e \<Rightarrow> self
         | Inr p1 \<Rightarrow>
             (case ChessGame_coords end of
                Inl e \<Rightarrow> self
              | Inr p2 \<Rightarrow>
                  (case ChessBoard_move_piece (chess_board self) p1 p2 of
                     (Raised e, b) \<Rightarrow> self\<lparr>chess_board := b\<rparr>
                   | (outcome, b) \<Rightarrow>
                       (let s1 = ChessGame_switch_turn (self\<lparr>chess_board := b\<rparr>)
                        in s1\<lparr>move_count := move_count s1 + 1\<rparr>)))))"

section \<open>HexChessGame\<close>

record HexChessGame =
  hex_board :: HexChessBoard
  players :: "color list"
  turn_index :: int
  hex_move_count :: int

definition HexChessGame_init :: HexChessGame where
  "HexChessGame_init =
     \<lparr>hex_board = HexChessBoard_init, players = [White, Black], turn_index = 0,
      hex_move_count = 0\<rparr>"

definition HexChessGame_switch_turn :: "HexChessGame \<Rightarrow> HexChessGame" where
  "HexChessGame_switch_turn self = self\<lparr>turn_index := (turn_index self + 1) mod 2\<rparr>"

definition HexChessGame_convert_to_coords :: "string \<Rightarrow> py_error + pos" where
  "HexChessGame_convert_to_coords position =
     (case str_at position 0 of
        Inl e \<Rightarrow> Inl e
      | Inr c \<Rightarrow>
          (let col = py_ord (lower_char c) - py_ord CHR ''a'' + 1 in
           case py_int (drop 1 position) of
             Inl e \<Rightarrow> Inl e
           | Inr n \<Rightarrow> Inr (11 - n, col)))"

definition HexChessGame_play_step :: "HexChessGame \<Rightarrow> string \<Rightarrow> string \<Rightarrow> HexChessGame" where
  "HexChessGame_play_step self start end =
     (if lower start = ''undo'' \<or> lower end = ''undo'' then
        HexChessGame_switch_turn
          (self\<lparr>hex_board := snd (HexChessBoard_undo_move (hex_board self))\<rparr>)
      else
        (case HexChessGame_convert_to_coords start of
           Inl e \<Rightarrow> self
         | Inr p1 \<Rightarrow>
             (case HexChessGame_convert_to_coords end of
                Inl e \<Rightarrow> self
              | Inr p2 \<Rightarrow>
                  (case HexChessBoard_move_piece (hex_board self) p1 p2 of
                     (Raised e, b) \<Rightarrow> self\<lparr>hex_board := b\<rparr>
                   | (outcome, b) \<Rightarrow>
                       (let s1 = HexChessGame_switch_turn (self\<lparr>hex_board := b\<rparr>)
                        in s1\<lparr>hex_move_count := hex_move_count s1 + 1\<rparr>)))))"

section \<open>Notions used in the statements\<close>

text \<open>The number of occupied cells of a grid.\<close>

definition count_pieces :: "'p grid \<Rightarrow> nat" where
  "count_pieces g = sum_list (map (\<lambda>row. length (filter (\<lambda>c. c \<noteq> None) row)) g)"

text \<open>
  The cell (row and column, counted from 0) that a pair of Python indices denotes in a
  grid, if it denotes one: \<open>(-1, 0)\<close> and \<open>(7, 0)\<close> are the same cell of an 8 by 8 grid.
\<close>

definition cell_of :: "'p grid \<Rightarrow> pos \<Rightarrow> (nat \<times> nat) option" where
  "cell_of g p =
     (case py_index (length g) (fst p) of
        None \<Rightarrow> None
      | Some r \<Rightarrow>
          (case py_index (length (g ! r)) (snd p) of
             None \<Rightarrow> None
           | Some k \<Rightarrow> Some (r, k)))"

text \<open>
  The local variables \<open>direction\<close> and \<open>(mid_x, mid_y)\<close> of
  \<open>CheckersBoard.is_valid_move\<close>, and the condition under which \<open>move_piece\<close> calls
  \<open>promote\<close>.
\<close>

definition direction :: "CheckersPiece \<Rightarrow> int" where
  "direction piece = (if color piece = White then - 1 else 1)"

definition midpoint :: "pos \<Rightarrow> pos \<Rightarrow> pos" where
  "midpoint start end = ((fst start + fst end) div 2, (snd start + snd end) div 2)"

definition lands_on_last_rank :: "CheckersPiece \<Rightarrow> pos \<Rightarrow> bool" where
  "lands_on_last_rank piece end \<longleftrightarrow>
     (color piece = White \<and> fst end = 0) \<or> (color piece = Black \<and> fst end = 7)"

text \<open>A grid of \<open>n\<close> rows of \<open>n\<close> cells, as every board of the program is.\<close>

definition square :: "nat \<Rightarrow> 'p grid \<Rightarrow> bool" where
  "square n g \<longleftrightarrow> length g = n \<and> (\<forall>row \<in> set g. length row = n)"

text \<open>
  Three checkers positions: the one of the jump example of the specification (a white
  man on (5,2), a black man on (4,3)), one with a white king on (4,3) next to a black
  man on (5,4), and one with a white man on (1,2), one step from its last rank.
\<close>

definition jump_example :: CheckersBoard where
  "jump_example =
     \<lparr>board = put (put (empty_grid 8) 5 2 (new_CheckersPiece White)) 4 3 (new_CheckersPiece Black),
      move_history = []\<rparr>"

definition king_example :: CheckersBoard where
  "king_example =
     \<lparr>board = put (put (empty_grid 8) 4 3 (promote (new_CheckersPiece White)))
                    5 4 (new_CheckersPiece Black),
      move_history = []\<rparr>"

definition promotion_example :: CheckersBoard where
  "promotion_example =
     \<lparr>board = put (empty_grid 8) 1 2 (new_CheckersPiece White), move_history = []\<rparr>"

text \<open>
  The checkers position after the two opening moves c3-d4 and f6-e5 on the initial
  board: a white man on (4,3) with a black man on (3,4) before it and (2,5) empty.
\<close>

definition capture_position :: CheckersBoard where
  "capture_position =
     snd (CheckersBoard_move_piece
            (snd (CheckersBoard_move_piece CheckersBoard_init (5, 2) (4, 3))) (2, 5) (3, 4))"

text \<open>
  A store \<open>h'\<close> that holds every object of the store \<open>h\<close> with its colour, and as a
  king if it was one in \<open>h\<close>.
\<close>

definition never_demoted :: "CheckersPiece list \<Rightarrow> CheckersPiece list \<Rightarrow> bool" where
  "never_demoted h h' \<longleftrightarrow>
     length h \<le> length h' \<and>
     (\<forall>a < length h. color (h' ! a) = color (h ! a) \<and> (is_king (h ! a) \<longrightarrow> is_king (h' ! a)))"

text \<open>
  Two stores: a white man on (1,2), one step from its last rank, and a white king on
  (4,3) next to a black man on (5,4).
\<close>

definition promotion_store :: CheckersStore where
  "promotion_store =
     \<lparr>objects = [new_CheckersPiece White],
      obj_board = put (empty_grid 8) 1 2 0,
      obj_move_history = []\<rparr>"

definition king_store :: CheckersStore where
  "king_store =
     \<lparr>objects = [promote (new_CheckersPiece White), new_CheckersPiece Black],
      obj_board = put (put (empty_grid 8) 4 3 0) 5 4 1,
      obj_move_history = []\<rparr>"

text \<open>
  The grid of piece values that a grid of references stands for in a store, and the
  value board that a board with piece objects stands for.
\<close>

definition view :: "CheckersPiece list \<Rightarrow> ref grid \<Rightarrow> CheckersPiece grid" where
  "view h g = map (map (map_option (\<lambda>a. h ! a))) g"

definition view_board :: "CheckersStore \<Rightarrow> CheckersBoard" where
  "view_board s =
     \<lparr>board = view (objects s) (obj_board s),
      move_history = map (view (objects s)) (obj_move_history s)\<rparr>"

text \<open>
  How often a reference occurs on a grid, and on the live grid and the snapshots of a
  board together. In an unshared board no reference occurs twice, and every reference
  that occurs refers to an object of the store.
\<close>

definition ref_count :: "ref \<Rightarrow> ref grid \<Rightarrow> nat" where
  "ref_count a g = sum_list (map (\<lambda>row. length (filter (\<lambda>c. c = Some a) row)) g)"

definition ref_total :: "ref \<Rightarrow> CheckersStore \<Rightarrow> nat" where
  "ref_total a s = ref_count a (obj_board s) + sum_list (map (ref_count a) (obj_move_history s))"

definition unshared :: "CheckersStore \<Rightarrow> bool" where
  "unshared s \<longleftrightarrow>
     (\<forall>a. ref_total a s \<le> 1) \<and> (\<forall>a. 0 < ref_total a s \<longrightarrow> a < length (objects s))"

text \<open>The references of a grid, row by row.\<close>

definition refs :: "ref grid \<Rightarrow> ref list" where
  "refs g = concat (map (\<lambda>row. concat (map (\<lambda>c. case c of None \<Rightarrow> [] | Some a \<Rightarrow> [a]) row)) g)"

text \<open>A call of one of the two state-changing methods of the board, on either model.\<close>

datatype board_call = Move pos pos | Undo

fun obj_call :: "board_call \<Rightarrow> CheckersStore \<Rightarrow> CheckersStore" where
  "obj_call (Move start end) s = snd (obj_move_piece s start end)"
| "obj_call Undo s = snd (obj_undo_move s)"

fun value_call :: "board_call \<Rightarrow> CheckersBoard \<Rightarrow> CheckersBoard" where
  "value_call (Move start end) s = snd (CheckersBoard_move_piece s start end)"
| "value_call Undo s = snd (CheckersBoard_undo_move s)"

text \<open>
  The number of cells of a grid whose content satisfies \<open>P\<close>; the number of cells that
  hold a given piece value (a kind and colour of chess piece), and the number of cells
  that hold a checkers piece of a given colour, man or king.
\<close>

definition count_cells :: "('p option \<Rightarrow> bool) \<Rightarrow> 'p grid \<Rightarrow> nat" where
  "count_cells P g = sum_list (map (\<lambda>row. length (filter P row)) g)"

definition count_kind :: "'p \<Rightarrow> 'p grid \<Rightarrow> nat" where
  "count_kind k g = count_cells (\<lambda>c. c = Some k) g"

definition count_color :: "color \<Rightarrow> CheckersPiece grid \<Rightarrow> nat" where
  "count_color col g = count_cells (\<lambda>c. case c of None \<Rightarrow> False | Some p \<Rightarrow> color p = col) g"

text \<open>
  A board on which, by a measure \<open>f\<close> of grids, no snapshot has less than a later
  snapshot or than the live grid, and neither a snapshot nor the live grid has more than
  \<open>N\<close>.
\<close>

definition descending :: "('p grid \<Rightarrow> nat) \<Rightarrow> nat \<Rightarrow> 'p Board \<Rightarrow> bool" where
  "descending f N s \<longleftrightarrow>
     sorted_wrt (\<lambda>a b. f b \<le> f a) (move_history s @ [board s]) \<and>
     (\<forall>g \<in> set (move_history s @ [board s]). f g \<le> N)"

text \<open>
  A call of \<open>move_piece\<close> or \<open>undo_move\<close> on the chess and on the hex-chess board. A
  call that raises leaves the board object as it is at the raise.
\<close>

fun chess_call :: "board_call \<Rightarrow> ChessBoard \<Rightarrow> ChessBoard" where
  "chess_call (Move start end) s = snd (ChessBoard_move_piece s start end)"
| "chess_call Undo s = snd (ChessBoard_undo_move s)"

fun hex_call :: "board_call \<Rightarrow> HexChessBoard \<Rightarrow> HexChessBoard" where
  "hex_call (Move start end) s = snd (HexChessBoard_move_piece s start end)"
| "hex_call Undo s = snd (HexChessBoard_undo_move s)"

section \<open>Reading and writing cells\<close>

lemma py_index_SomeD: "py_index n i = Some r \<Longrightarrow> r < n"
  by (auto simp: py_index_def split: if_splits)

lemma grid_get_InrD:
  assumes "grid_get g p = Inr c"
  obtains r k where "py_index (length g) (fst p) = Some r" "r < length g"
    "py_index (length (g ! r)) (snd p) = Some k" "k < length (g ! r)" "c = g ! r ! k"
  using assms
  by (auto simp: grid_get_def split: option.splits dest: py_index_SomeD)

lemma grid_get_error: "grid_get g p = Inl e \<Longrightarrow> e = IndexError"
  by (auto simp: grid_get_def split: option.splits)

lemma grid_set_error: "grid_set g p v = Inl e \<Longrightarrow> e = IndexError"
  by (auto simp: grid_set_def split: option.splits)

lemma grid_set_of_get:
  assumes "grid_get g p = Inr c"
  shows "\<exists>g'. grid_set g p v = Inr g'"
  using assms by (auto simp: grid_get_def grid_set_def split: option.splits)

lemma grid_get_of_set:
  assumes "grid_set g p v = Inr g'"
  shows "\<exists>c. grid_get g p = Inr c"
  using assms by (auto simp: grid_get_def grid_set_def split: option.splits)

lemma grid_set_InrD:
  assumes "grid_set g p v = Inr g'"
  obtains r k where "py_index (length g) (fst p) = Some r" "r < length g"
    "py_index (length (g ! r)) (snd p) = Some k" "k < length (g ! r)"
    "g' = g[r := (g ! r)[k := v]]"
  using assms
  by (auto simp: grid_set_def split: option.splits dest: py_index_SomeD)

lemma grid_set_shape:
  assumes "grid_set g p v = Inr g'"
  shows "length g' = length g" and "length (g' ! r) = length (g ! r)"
proof -
  from assms obtain i k where "i < length g" and g': "g' = g[i := (g ! i)[k := v]]"
    by (rule grid_set_InrD)
  then show "length g' = length g" and "length (g' ! r) = length (g ! r)"
    by (simp_all add: nth_list_update)
qed

lemma grid_get_set_same:
  assumes "grid_set g p v = Inr g'"
  shows "grid_get g' p = Inr v"
proof -
  from assms obtain r k where "py_index (length g) (fst p) = Some r" "r < length g"
    "py_index (length (g ! r)) (snd p) = Some k" "k < length (g ! r)"
    "g' = g[r := (g ! r)[k := v]]"
    by (rule grid_set_InrD)
  then show ?thesis
    by (simp add: grid_get_def)
qed

lemma grid_get_set_valid:
  assumes "grid_set g p v = Inr g'"
  shows "(\<exists>c. grid_get g' q = Inr c) \<longleftrightarrow> (\<exists>c. grid_get g q = Inr c)"
proof -
  have len: "length g' = length g" and row: "\<And>r. length (g' ! r) = length (g ! r)"
    using grid_set_shape[OF assms] by simp_all
  show ?thesis
    by (simp add: grid_get_def len row split: option.splits)
qed

lemma grid_set_set_same:
  assumes "grid_set g p v = Inr g1"
  shows "grid_set g1 p w = grid_set g p w"
proof -
  from assms obtain r k where "py_index (length g) (fst p) = Some r" "r < length g"
    "py_index (length (g ! r)) (snd p) = Some k" "k < length (g ! r)"
    "g1 = g[r := (g ! r)[k := v]]"
    by (rule grid_set_InrD)
  then show ?thesis
    by (simp add: grid_set_def)
qed

lemma grid_get_cell_of:
  "grid_get g p = (case cell_of g p of None \<Rightarrow> Inl IndexError | Some (r, k) \<Rightarrow> Inr (g ! r ! k))"
  by (simp add: grid_get_def cell_of_def split: option.splits)

lemma grid_set_cell_of:
  "grid_set g p v =
     (case cell_of g p of None \<Rightarrow> Inl IndexError | Some (r, k) \<Rightarrow> Inr (g[r := (g ! r)[k := v]]))"
  by (simp add: grid_set_def cell_of_def split: option.splits)

lemma cell_of_bounds:
  assumes "cell_of g p = Some (r, k)"
  shows "r < length g" and "k < length (g ! r)"
  using assms by (auto simp: cell_of_def split: option.splits dest: py_index_SomeD)

lemma cell_of_set:
  assumes "grid_set g p v = Inr g'"
  shows "cell_of g' q = cell_of g q"
proof -
  have "length g' = length g" and "\<And>r. length (g' ! r) = length (g ! r)"
    using grid_set_shape[OF assms] by simp_all
  then show ?thesis by (auto simp: cell_of_def split: option.splits)
qed

lemma grid_get_set_cell:
  assumes "grid_set g p v = Inr g'"
  shows "grid_get g' q = (if cell_of g q = cell_of g p then Inr v else grid_get g q)"
proof -
  from assms obtain r k where pk: "cell_of g p = Some (r, k)" and g': "g' = g[r := (g ! r)[k := v]]"
    by (auto simp: grid_set_cell_of split: option.splits)
  note b = cell_of_bounds[OF pk]
  have cq: "cell_of g' q = cell_of g q"
    by (rule cell_of_set[OF assms])
  show ?thesis
  proof (cases "cell_of g q")
    case None
    with cq pk show ?thesis
      by (simp add: grid_get_cell_of)
  next
    case (Some c)
    obtain r' k' where c: "c = (r', k')" by (cases c)
    have 1: "grid_get g' q = Inr (g' ! r' ! k')"
      using cq Some c by (simp add: grid_get_cell_of)
    have 2: "grid_get g q = Inr (g ! r' ! k')"
      using Some c by (simp add: grid_get_cell_of)
    have 3: "g' ! r' ! k' = (if (r', k') = (r, k) then v else g ! r' ! k')"
      using b by (auto simp: g' nth_list_update)
    show ?thesis
      using 1 2 3 Some c pk by auto
  qed
qed

lemma cells_differ:
  assumes "grid_get g a = Inr x" and "grid_get g b = Inr y" and "x \<noteq> y"
  shows "cell_of g a \<noteq> cell_of g b"
  using assms by (auto simp: grid_get_cell_of split: option.splits)

lemma grid_set_same_value:
  assumes "grid_get g p = Inr v"
  shows "grid_set g p v = Inr g"
  using assms
  by (auto simp: grid_get_cell_of grid_set_cell_of split: option.splits)

lemma filter_update_count:
  assumes "k < length row"
  shows "length (filter P (row[k := v])) + (if P (row ! k) then 1 else 0) =
         length (filter P row) + (if P v then 1 else 0)"
  using assms
proof (induction row arbitrary: k)
  case Nil
  then show ?case by simp
next
  case (Cons a row)
  then show ?case by (cases k) auto
qed

lemma sum_list_update_count:
  fixes f :: "'a \<Rightarrow> nat"
  assumes "r < length g"
  shows "sum_list (map f (g[r := x])) + f (g ! r) = sum_list (map f g) + f x"
  using assms
proof (induction g arbitrary: r)
  case Nil
  then show ?case by simp
next
  case (Cons a g)
  then show ?case by (cases r) (auto simp: add.assoc add.left_commute)
qed

lemma count_pieces_set:
  assumes "grid_set g p v = Inr g'" and "grid_get g p = Inr c"
  shows "count_pieces g' + (if c = None then 0 else 1) =
         count_pieces g + (if v = None then 0 else 1)"
proof -
  from assms(1) obtain r k where pk: "cell_of g p = Some (r, k)" and g': "g' = g[r := (g ! r)[k := v]]"
    by (auto simp: grid_set_cell_of split: option.splits)
  note b = cell_of_bounds[OF pk]
  from assms(2) pk have c: "c = g ! r ! k" by (simp add: grid_get_cell_of)
  let ?f = "\<lambda>row. length (filter (\<lambda>c. c \<noteq> None) row)"
  have 1: "count_pieces g' + ?f (g ! r) = count_pieces g + ?f ((g ! r)[k := v])"
    unfolding count_pieces_def g' using sum_list_update_count[OF b(1), of ?f] by simp
  have 2: "?f ((g ! r)[k := v]) + (if c \<noteq> None then 1 else 0) = ?f (g ! r) + (if v \<noteq> None then 1 else 0)"
    unfolding c using filter_update_count[OF b(2), of "\<lambda>c. c \<noteq> None" v] by simp
  from 1 2 show ?thesis by (simp split: if_splits)
qed

lemma count_pieces_cells: "count_pieces g = count_cells (\<lambda>c. c \<noteq> None) g"
  by (simp add: count_pieces_def count_cells_def)

lemma count_cells_set:
  assumes "grid_set g p v = Inr g'" and "grid_get g p = Inr c"
  shows "count_cells P g' + (if P c then 1 else 0) = count_cells P g + (if P v then 1 else 0)"
proof -
  from assms(1) obtain r k where pk: "cell_of g p = Some (r, k)" and g': "g' = g[r := (g ! r)[k := v]]"
    by (auto simp: grid_set_cell_of split: option.splits)
  note b = cell_of_bounds[OF pk]
  from assms(2) pk have c: "c = g ! r ! k" by (simp add: grid_get_cell_of)
  let ?f = "\<lambda>row. length (filter P row)"
  have 1: "count_cells P g' + ?f (g ! r) = count_cells P g + ?f ((g ! r)[k := v])"
    unfolding count_cells_def g' using sum_list_update_count[OF b(1), of ?f] by simp
  have 2: "?f ((g ! r)[k := v]) + (if P c then 1 else 0) = ?f (g ! r) + (if P v then 1 else 0)"
    unfolding c using filter_update_count[OF b(2), of P v] by simp
  from 1 2 show ?thesis by linarith
qed

text \<open>
  On a square grid the cell midway between two cells of the grid is on the grid, also
  with indices that count from the end; and the boards are square and stay so.
\<close>

lemma py_index_Some_iff: "(\<exists>r. py_index n i = Some r) \<longleftrightarrow> - int n \<le> i \<and> i < int n"
  by (auto simp: py_index_def)

lemma grid_get_square:
  assumes "square n g"
  shows "(\<exists>c. grid_get g p = Inr c) \<longleftrightarrow>
           - int n \<le> fst p \<and> fst p < int n \<and> - int n \<le> snd p \<and> snd p < int n"
proof -
  have row: "length (g ! r) = n" if "r < length g" for r
    using assms that by (simp add: square_def)
  have len: "length g = n" using assms by (simp add: square_def)
  show ?thesis
  proof (cases "py_index n (fst p)")
    case None
    with py_index_Some_iff[of n "fst p"] show ?thesis
      by (auto simp: grid_get_def len)
  next
    case (Some r)
    then have "r < n" by (rule py_index_SomeD)
    with Some py_index_Some_iff[of n "fst p"] py_index_Some_iff[of n "snd p"] show ?thesis
      by (auto simp: grid_get_def len row split: option.splits)
  qed
qed

lemma midpoint_on_grid:
  assumes "square n g" and "grid_get g start = Inr a" and "grid_get g end = Inr b"
  shows "\<exists>m. grid_get g (midpoint start end) = Inr m"
proof -
  from assms(2) grid_get_square[OF assms(1), of start]
  have s: "- int n \<le> fst start \<and> fst start < int n \<and> - int n \<le> snd start \<and> snd start < int n"
    by blast
  from assms(3) grid_get_square[OF assms(1), of "end"]
  have e: "- int n \<le> fst end \<and> fst end < int n \<and> - int n \<le> snd end \<and> snd end < int n"
    by blast
  from s e have "- int n \<le> fst (midpoint start end) \<and> fst (midpoint start end) < int n \<and>
      - int n \<le> snd (midpoint start end) \<and> snd (midpoint start end) < int n"
    by (simp add: midpoint_def) linarith
  with grid_get_square[OF assms(1), of "midpoint start end"] show ?thesis by blast
qed

lemma grid_set_square:
  assumes "grid_set g p v = Inr g'" and "square n g"
  shows "square n g'"
proof -
  have len: "length g' = length g" and row: "\<And>r. length (g' ! r) = length (g ! r)"
    using grid_set_shape[OF assms(1)] by simp_all
  from assms(2) have "length g = n" and "\<forall>r < length g. length (g ! r) = n"
    by (simp_all add: square_def)
  with len row have "length g' = n" and "\<forall>r < length g'. length (g' ! r) = n"
    by simp_all
  then show ?thesis
    by (auto simp: square_def in_set_conv_nth)
qed

lemma initial_boards_square:
  "square 8 ChessBoard_create_initial_board"
  "square 11 HexChessBoard_create_initial_board"
  "square 8 CheckersBoard_create_initial_board"
  by code_simp+

section \<open>Orthogonal chess and hex-chess: the permissive boards\<close>

lemma ChessBoard_move_piece_occupied:
  assumes "grid_get (board self) start = Inr (Some piece)"
      and "grid_set (board self) end (Some piece) = Inr g1"
      and "grid_set g1 start None = Inr g2"
  shows "ChessBoard_move_piece self start end =
           (Applied, self\<lparr>board := g2, move_history := move_history self @ [board self]\<rparr>)"
  using assms
  by (simp add: ChessBoard_move_piece_def ChessBoard_is_valid_move_def deepcopy_def)

lemma HexChessBoard_move_piece_eq: "HexChessBoard_move_piece = ChessBoard_move_piece"
  unfolding HexChessBoard_move_piece_def ChessBoard_move_piece_def
            HexChessBoard_is_valid_move_def ChessBoard_is_valid_move_def ..

lemma move_two_sets:
  assumes "grid_get g start = Inr c" and "grid_get g end = Inr d"
  obtains g1 g2 where "grid_set g end v = Inr g1" and "grid_set g1 start w = Inr g2"
proof -
  from assms(2) obtain g1 where g1: "grid_set g end v = Inr g1"
    using grid_set_of_get by blast
  from grid_get_set_valid[OF g1, of start] assms(1) obtain c' where "grid_get g1 start = Inr c'"
    by blast
  then obtain g2 where "grid_set g1 start w = Inr g2"
    using grid_set_of_get by blast
  with g1 that show thesis by blast
qed

text \<open>The two cell assignments of a move from an occupied cell to any cell of the grid.\<close>

lemma two_sets_cells:
  assumes s: "grid_get g start = Inr (Some piece)"
      and g1: "grid_set g end (Some piece) = Inr g1"
      and g2: "grid_set g1 start None = Inr g2"
  shows "grid_get g2 q =
           (if cell_of g q = cell_of g start then Inr None
            else if cell_of g q = cell_of g end then Inr (Some piece)
            else grid_get g q)"
proof -
  have c1: "\<And>q. cell_of g1 q = cell_of g q"
    by (rule cell_of_set[OF g1])
  have get1: "\<And>q. grid_get g1 q = (if cell_of g q = cell_of g end then Inr (Some piece) else grid_get g q)"
    by (rule grid_get_set_cell[OF g1])
  show ?thesis
    using grid_get_set_cell[OF g2, of q] by (simp add: c1 get1)
qed

lemma two_sets_count:
  assumes s: "grid_get g start = Inr (Some piece)"
      and e: "grid_get g end = Inr c"
      and g1: "grid_set g end (Some piece) = Inr g1"
      and g2: "grid_set g1 start None = Inr g2"
      and P: "\<not> P None"
  shows "count_cells P g2 + (if P c then 1 else 0) = count_cells P g"
proof -
  have s1: "grid_get g1 start = Inr (Some piece)"
    using grid_get_set_cell[OF g1, of start] s by simp
  have 1: "count_cells P g1 + (if P c then 1 else 0) =
           count_cells P g + (if P (Some piece) then 1 else 0)"
    by (rule count_cells_set[OF g1 e])
  have 2: "count_cells P g2 + (if P (Some piece) then 1 else 0) = count_cells P g1"
    using count_cells_set[OF g2 s1, of P] P by simp
  from 1 2 show ?thesis by linarith
qed

lemma ChessBoard_move_piece_rejected:
  assumes "fst (ChessBoard_move_piece self start end) = Rejected"
  shows "snd (ChessBoard_move_piece self start end) = self"
  using assms
  by (auto simp: ChessBoard_move_piece_def Let_def split: sum.splits option.splits if_splits)

text \<open>
  Claim C5. On the chess and hex-chess boards, a move from a cell that holds a piece to
  any cell of the grid is applied, whatever the end cell holds and also when it is the
  start cell: the grid before the call is pushed onto the history, the end cell is
  assigned the piece and then the start cell is cleared, so that afterwards the start
  cell is empty, the end cell (if it is another cell) holds the piece and every other
  cell holds what it held. A move from an empty cell is rejected with the board as it
  was, whatever the end coordinates are (they are never looked at, not even for being on
  the grid).
\<close>

theorem C5_placeholder_legality:
  "(grid_get (board self) start = Inr (Some piece) \<and> grid_get (board self) end = Inr c \<longrightarrow>
      (\<exists>g1 g2. grid_set (board self) end (Some piece) = Inr g1 \<and>
               grid_set g1 start None = Inr g2 \<and>
               ChessBoard_move_piece self start end =
                 (Applied, self\<lparr>board := g2, move_history := move_history self @ [board self]\<rparr>) \<and>
               HexChessBoard_move_piece self start end =
                 (Applied, self\<lparr>board := g2, move_history := move_history self @ [board self]\<rparr>) \<and>
               (\<forall>q. grid_get g2 q =
                  (if cell_of (board self) q = cell_of (board self) start then Inr None
                   else if cell_of (board self) q = cell_of (board self) end then Inr (Some piece)
                   else grid_get (board self) q)))) \<and>
   (grid_get (board self) start = Inr None \<longrightarrow>
      ChessBoard_move_piece self start end = (Rejected, self) \<and>
      HexChessBoard_move_piece self start end = (Rejected, self))"
proof (intro conjI impI)
  assume h: "grid_get (board self) start = Inr (Some piece) \<and> grid_get (board self) end = Inr c"
  then have s: "grid_get (board self) start = Inr (Some piece)" by simp
  from h obtain g1 g2 where g1: "grid_set (board self) end (Some piece) = Inr g1"
    and g2: "grid_set g1 start None = Inr g2"
    using move_two_sets[of "board self" start "Some piece" "end" c "Some piece" None] by blast
  have m: "ChessBoard_move_piece self start end =
             (Applied, self\<lparr>board := g2, move_history := move_history self @ [board self]\<rparr>)"
    by (rule ChessBoard_move_piece_occupied[OF s g1 g2])
  then have m': "HexChessBoard_move_piece self start end =
             (Applied, self\<lparr>board := g2, move_history := move_history self @ [board self]\<rparr>)"
    by (simp add: HexChessBoard_move_piece_eq)
  have r: "\<forall>q. grid_get g2 q =
                  (if cell_of (board self) q = cell_of (board self) start then Inr None
                   else if cell_of (board self) q = cell_of (board self) end then Inr (Some piece)
                   else grid_get (board self) q)"
    using two_sets_cells[OF s g1 g2] by blast
  from g1 g2 m m' r
  show "\<exists>g1 g2. grid_set (board self) end (Some piece) = Inr g1 \<and>
               grid_set g1 start None = Inr g2 \<and>
               ChessBoard_move_piece self start end =
                 (Applied, self\<lparr>board := g2, move_history := move_history self @ [board self]\<rparr>) \<and>
               HexChessBoard_move_piece self start end =
                 (Applied, self\<lparr>board := g2, move_history := move_history self @ [board self]\<rparr>) \<and>
               (\<forall>q. grid_get g2 q =
                  (if cell_of (board self) q = cell_of (board self) start then Inr None
                   else if cell_of (board self) q = cell_of (board self) end then Inr (Some piece)
                   else grid_get (board self) q))"
    by blast
next
  assume "grid_get (board self) start = Inr None"
  then show "ChessBoard_move_piece self start end = (Rejected, self)"
    by (simp add: ChessBoard_move_piece_def)
  then show "HexChessBoard_move_piece self start end = (Rejected, self)"
    by (simp add: HexChessBoard_move_piece_eq)
qed

theorem C5_placeholder_legality_witness:
  "grid_get (board ChessBoard_init) (6, 4) = Inr (Some (Pawn White)) \<and>
   grid_get (board ChessBoard_init) (7, 4) = Inr (Some (King White)) \<and>
   fst (ChessBoard_move_piece ChessBoard_init (6, 4) (7, 4)) = Applied \<and>
   grid_get (board (snd (ChessBoard_move_piece ChessBoard_init (6, 4) (7, 4)))) (7, 4) =
     Inr (Some (Pawn White)) \<and>
   grid_get (board (snd (ChessBoard_move_piece ChessBoard_init (6, 4) (7, 4)))) (6, 4) = Inr None \<and>
   move_history (snd (ChessBoard_move_piece ChessBoard_init (6, 4) (7, 4))) =
     [board ChessBoard_init] \<and>
   grid_get (board HexChessBoard_init) (9, 2) = Inr (Some (Pawn White)) \<and>
   grid_get (board HexChessBoard_init) (5, 5) = Inr None \<and>
   fst (HexChessBoard_move_piece HexChessBoard_init (9, 2) (5, 5)) = Applied \<and>
   grid_get (board (snd (HexChessBoard_move_piece HexChessBoard_init (9, 2) (5, 5)))) (5, 5) =
     Inr (Some (Pawn White)) \<and>
   grid_get (board (snd (HexChessBoard_move_piece HexChessBoard_init (9, 2) (5, 5)))) (9, 2) = Inr None \<and>
   move_history (snd (HexChessBoard_move_piece HexChessBoard_init (9, 2) (5, 5))) =
     [board HexChessBoard_init] \<and>
   grid_get (board ChessBoard_init) (4, 4) = Inr None \<and>
   ChessBoard_move_piece ChessBoard_init (4, 4) (9, 9) = (Rejected, ChessBoard_init) \<and>
   HexChessBoard_move_piece ChessBoard_init (4, 4) (9, 9) = (Rejected, ChessBoard_init)"
proof -
  have a: "grid_get (board ChessBoard_init) (6, 4) = Inr (Some (Pawn White))" by code_simp
  have b: "grid_get (board ChessBoard_init) (7, 4) = Inr (Some (King White))" by code_simp
  have c: "grid_get (board ChessBoard_init) (4, 4) = Inr None" by code_simp
  have d: "grid_get (board HexChessBoard_init) (9, 2) = Inr (Some (Pawn White))" by code_simp
  have e: "grid_get (board HexChessBoard_init) (5, 5) = Inr None" by code_simp
  have ca: "cell_of (board ChessBoard_init) (6, 4) = Some (6, 4)" by code_simp
  have cb: "cell_of (board ChessBoard_init) (7, 4) = Some (7, 4)" by code_simp
  have cd: "cell_of (board HexChessBoard_init) (9, 2) = Some (9, 2)" by code_simp
  have ce: "cell_of (board HexChessBoard_init) (5, 5) = Some (5, 5)" by code_simp
  from a b
    C5_placeholder_legality[of ChessBoard_init "(6, 4)" "Pawn White" "(7, 4)" "Some (King White)"]
  obtain g2 where m: "ChessBoard_move_piece ChessBoard_init (6, 4) (7, 4) =
        (Applied, ChessBoard_init\<lparr>board := g2,
                    move_history := move_history ChessBoard_init @ [board ChessBoard_init]\<rparr>)"
    and r: "\<forall>q. grid_get g2 q =
                  (if cell_of (board ChessBoard_init) q = cell_of (board ChessBoard_init) (6, 4)
                   then Inr None
                   else if cell_of (board ChessBoard_init) q = cell_of (board ChessBoard_init) (7, 4)
                   then Inr (Some (Pawn White))
                   else grid_get (board ChessBoard_init) q)"
    by blast
  have h0: "move_history ChessBoard_init = []" by (simp add: ChessBoard_init_def)
  have 1: "fst (ChessBoard_move_piece ChessBoard_init (6, 4) (7, 4)) = Applied"
    using m by simp
  have 2: "grid_get (board (snd (ChessBoard_move_piece ChessBoard_init (6, 4) (7, 4)))) (7, 4) =
     Inr (Some (Pawn White))"
    using m r[rule_format, of "(7, 4)"] by (simp add: ca cb)
  have 3: "grid_get (board (snd (ChessBoard_move_piece ChessBoard_init (6, 4) (7, 4)))) (6, 4) = Inr None"
    using m r[rule_format, of "(6, 4)"] by simp
  have 4: "move_history (snd (ChessBoard_move_piece ChessBoard_init (6, 4) (7, 4))) =
     [board ChessBoard_init]"
    using m h0 by simp
  from d e
    C5_placeholder_legality[of HexChessBoard_init "(9, 2)" "Pawn White" "(5, 5)" None]
  obtain g2' where m': "HexChessBoard_move_piece HexChessBoard_init (9, 2) (5, 5) =
        (Applied, HexChessBoard_init\<lparr>board := g2',
                    move_history := move_history HexChessBoard_init @ [board HexChessBoard_init]\<rparr>)"
    and r': "\<forall>q. grid_get g2' q =
                  (if cell_of (board HexChessBoard_init) q = cell_of (board HexChessBoard_init) (9, 2)
                   then Inr None
                   else if cell_of (board HexChessBoard_init) q = cell_of (board HexChessBoard_init) (5, 5)
                   then Inr (Some (Pawn White))
                   else grid_get (board HexChessBoard_init) q)"
    by blast
  have h0': "move_history HexChessBoard_init = []" by (simp add: HexChessBoard_init_def)
  have 5: "fst (HexChessBoard_move_piece HexChessBoard_init (9, 2) (5, 5)) = Applied"
    using m' by simp
  have 6: "grid_get (board (snd (HexChessBoard_move_piece HexChessBoard_init (9, 2) (5, 5)))) (5, 5) =
     Inr (Some (Pawn White))"
    using m' r'[rule_format, of "(5, 5)"] by (simp add: cd ce)
  have 7: "grid_get (board (snd (HexChessBoard_move_piece HexChessBoard_init (9, 2) (5, 5)))) (9, 2) = Inr None"
    using m' r'[rule_format, of "(9, 2)"] by simp
  have 8: "move_history (snd (HexChessBoard_move_piece HexChessBoard_init (9, 2) (5, 5))) =
     [board HexChessBoard_init]"
    using m' h0' by simp
  from c C5_placeholder_legality[of ChessBoard_init "(4, 4)" "Pawn White" "(9, 9)" None]
  have 9: "ChessBoard_move_piece ChessBoard_init (4, 4) (9, 9) = (Rejected, ChessBoard_init) \<and>
   HexChessBoard_move_piece ChessBoard_init (4, 4) (9, 9) = (Rejected, ChessBoard_init)"
    by blast
  from a b c d e 1 2 3 4 5 6 7 8 9 show ?thesis by (intro conjI) simp_all
qed

text \<open>
  Claim C10. On the chess and hex-chess boards, a move whose end is its start, from a
  cell that holds a piece, is applied: the grid before the call is pushed onto the
  history, and the new grid is the old one with that cell cleared, so the piece is gone.
\<close>

theorem C10_move_onto_itself:
  assumes "grid_get (board self) start = Inr (Some piece)"
  shows "\<exists>g'. grid_set (board self) start None = Inr g' \<and>
           grid_get g' start = Inr None \<and>
           ChessBoard_move_piece self start start =
             (Applied, self\<lparr>board := g', move_history := move_history self @ [board self]\<rparr>) \<and>
           HexChessBoard_move_piece self start start =
             (Applied, self\<lparr>board := g', move_history := move_history self @ [board self]\<rparr>)"
proof -
  from assms obtain g1 where g1: "grid_set (board self) start (Some piece) = Inr g1"
    using grid_set_of_get by blast
  from assms obtain g' where g': "grid_set (board self) start None = Inr g'"
    using grid_set_of_get by blast
  have g2: "grid_set g1 start None = Inr g'"
    using grid_set_set_same[OF g1] g' by simp
  have m: "ChessBoard_move_piece self start start =
             (Applied, self\<lparr>board := g', move_history := move_history self @ [board self]\<rparr>)"
    using ChessBoard_move_piece_occupied[OF assms g1 g2] .
  from g' grid_get_set_same[OF g'] m show ?thesis
    by (simp add: HexChessBoard_move_piece_eq)
qed

theorem C10_move_onto_itself_witness:
  "grid_get (board ChessBoard_init) (6, 4) = Inr (Some (Pawn White)) \<and>
   fst (ChessBoard_move_piece ChessBoard_init (6, 4) (6, 4)) = Applied \<and>
   grid_get (board (snd (ChessBoard_move_piece ChessBoard_init (6, 4) (6, 4)))) (6, 4) = Inr None \<and>
   move_history (snd (ChessBoard_move_piece ChessBoard_init (6, 4) (6, 4))) = [board ChessBoard_init]"
proof -
  have a: "grid_get (board ChessBoard_init) (6, 4) = Inr (Some (Pawn White))" by code_simp
  from a C10_move_onto_itself[OF a] show ?thesis
    by (auto simp: ChessBoard_init_def)
qed

section \<open>Checkers: validation\<close>

lemma is_valid_move_unreadable:
  assumes "grid_get (board self) end = Inl e"
  shows "CheckersBoard_is_valid_move self piece start end = Inl e"
  using assms by (simp add: CheckersBoard_is_valid_move_def Let_def)

lemma is_valid_move_occupied:
  assumes "grid_get (board self) end = Inr (Some q)"
  shows "CheckersBoard_is_valid_move self piece start end = Inr (False, self)"
  using assms by (simp add: CheckersBoard_is_valid_move_def Let_def)

lemma is_valid_move_king:
  assumes "grid_get (board self) end = Inr None" and "is_king piece"
  shows "CheckersBoard_is_valid_move self piece start end =
           Inr (\<bar>fst end - fst start\<bar> = \<bar>snd end - snd start\<bar> \<and>
                \<bar>snd end - snd start\<bar> \<in> {1, 2}, self)"
  using assms by (simp add: CheckersBoard_is_valid_move_def Let_def)

lemma is_valid_move_step:
  assumes "grid_get (board self) end = Inr None" and "\<not> is_king piece"
      and "fst end - fst start = direction piece" and "\<bar>snd end - snd start\<bar> = 1"
  shows "CheckersBoard_is_valid_move self piece start end = Inr (True, self)"
  using assms by (simp add: CheckersBoard_is_valid_move_def Let_def direction_def)

lemma is_valid_move_jump:
  assumes "grid_get (board self) end = Inr None" and "\<not> is_king piece"
      and "fst end - fst start = 2 * direction piece" and "\<bar>snd end - snd start\<bar> = 2"
  shows "CheckersBoard_is_valid_move self piece start end =
           (case grid_get (board self) (midpoint start end) of
              Inl e \<Rightarrow> Inl e
            | Inr None \<Rightarrow> Inr (False, self)
            | Inr (Some jumped) \<Rightarrow>
                if color jumped \<noteq> color piece then
                  (case grid_set (board self) (midpoint start end) None of
                     Inl e \<Rightarrow> Inl e
                   | Inr g \<Rightarrow> Inr (True, self\<lparr>board := g\<rparr>))
                else Inr (False, self))"
  using assms
  by (auto simp: CheckersBoard_is_valid_move_def Let_def direction_def midpoint_def
           split: sum.splits option.splits)

lemma is_valid_move_other:
  assumes "grid_get (board self) end = Inr None" and "\<not> is_king piece"
      and "\<not> (fst end - fst start = direction piece \<and> \<bar>snd end - snd start\<bar> = 1)"
      and "\<not> (fst end - fst start = 2 * direction piece \<and> \<bar>snd end - snd start\<bar> = 2)"
  shows "CheckersBoard_is_valid_move self piece start end = Inr (False, self)"
  using assms by (auto simp: CheckersBoard_is_valid_move_def Let_def direction_def)

text \<open>What a successful validation leaves behind.\<close>

lemma is_valid_move_True:
  assumes v: "CheckersBoard_is_valid_move self piece start end = Inr (True, s0)"
  shows "grid_get (board self) end = Inr None"
    and "move_history s0 = move_history self"
    and "s0 = self \<or>
         (\<not> is_king piece \<and> fst end - fst start = 2 * direction piece \<and>
          (\<exists>jumped g. grid_get (board self) (midpoint start end) = Inr (Some jumped) \<and>
             color jumped \<noteq> color piece \<and>
             grid_set (board self) (midpoint start end) None = Inr g \<and>
             s0 = self\<lparr>board := g\<rparr>))"
proof -
  show e: "grid_get (board self) end = Inr None"
  proof (cases "grid_get (board self) end")
    case (Inl e)
    with v show ?thesis by (simp add: is_valid_move_unreadable)
  next
    case (Inr c)
    with v show ?thesis by (cases c) (simp_all add: is_valid_move_occupied)
  qed
  show "s0 = self \<or>
         (\<not> is_king piece \<and> fst end - fst start = 2 * direction piece \<and>
          (\<exists>jumped g. grid_get (board self) (midpoint start end) = Inr (Some jumped) \<and>
             color jumped \<noteq> color piece \<and>
             grid_set (board self) (midpoint start end) None = Inr g \<and>
             s0 = self\<lparr>board := g\<rparr>))"
  proof (cases "is_king piece")
    case True
    with v e show ?thesis by (simp add: is_valid_move_king)
  next
    case False
    show ?thesis
    proof (cases "fst end - fst start = direction piece \<and> \<bar>snd end - snd start\<bar> = 1")
      case True
      with v e False show ?thesis by (simp add: is_valid_move_step)
    next
      case nstep: False
      show ?thesis
      proof (cases "fst end - fst start = 2 * direction piece \<and> \<bar>snd end - snd start\<bar> = 2")
        case True
        with v e False show ?thesis
          by (auto simp: is_valid_move_jump split: sum.splits option.splits if_splits)
      next
        case njump: False
        with v e False nstep show ?thesis by (simp add: is_valid_move_other)
      qed
    qed
  qed
  then show "move_history s0 = move_history self" by auto
qed

lemma is_valid_move_jump_capture:
  assumes "grid_get (board self) end = Inr None" and "\<not> is_king piece"
      and "fst end - fst start = 2 * direction piece" and "\<bar>snd end - snd start\<bar> = 2"
      and "grid_get (board self) (midpoint start end) = Inr (Some jumped)"
      and "color jumped \<noteq> color piece"
      and "grid_set (board self) (midpoint start end) None = Inr g"
  shows "CheckersBoard_is_valid_move self piece start end = Inr (True, self\<lparr>board := g\<rparr>)"
  by (simp add: is_valid_move_jump[OF assms(1-4)] assms(5-7))

lemma is_valid_move_jump_no_capture:
  assumes "grid_get (board self) end = Inr None" and "\<not> is_king piece"
      and "fst end - fst start = 2 * direction piece" and "\<bar>snd end - snd start\<bar> = 2"
      and "grid_get (board self) (midpoint start end) = Inr m"
      and "\<not> (\<exists>jumped. m = Some jumped \<and> color jumped \<noteq> color piece)"
  shows "CheckersBoard_is_valid_move self piece start end = Inr (False, self)"
proof (cases m)
  case None
  with assms(5) show ?thesis by (simp add: is_valid_move_jump[OF assms(1-4)])
next
  case (Some jumped)
  with assms(6) have "color jumped = color piece" by simp
  with Some assms(5) show ?thesis by (simp add: is_valid_move_jump[OF assms(1-4)])
qed

lemma CheckersBoard_is_valid_move_False:
  assumes "CheckersBoard_is_valid_move self piece start end = Inr (False, s0)"
  shows "s0 = self"
  using assms
  by (auto simp: CheckersBoard_is_valid_move_def Let_def
           split: sum.splits option.splits if_splits)

section \<open>Checkers: applying a move\<close>

lemma promote_king: "is_king piece \<Longrightarrow> promote piece = piece"
  by (simp add: promote_def)

lemma promote_at_occupied:
  assumes "grid_get g p = Inr (Some piece)"
  obtains g' where "grid_set g p (Some (promote piece)) = Inr g'" and "promote_at g p = g'"
proof -
  from assms obtain g' where "grid_set g p (Some (promote piece)) = Inr g'"
    using grid_set_of_get by blast
  with assms that show thesis by (simp add: promote_at_def)
qed

lemma promote_at_get:
  assumes "grid_get g p = Inr (Some piece)"
  shows "grid_get (promote_at g p) q =
           (if cell_of g q = cell_of g p then Inr (Some (promote piece)) else grid_get g q)"
proof -
  from assms obtain g' where s: "grid_set g p (Some (promote piece)) = Inr g'"
    and p: "promote_at g p = g'"
    by (rule promote_at_occupied)
  show ?thesis
    unfolding p by (rule grid_get_set_cell[OF s])
qed

lemma promote_at_count:
  assumes "grid_get g p = Inr (Some piece)"
  shows "count_pieces (promote_at g p) = count_pieces g"
proof -
  from assms obtain g' where s: "grid_set g p (Some (promote piece)) = Inr g'"
    and p: "promote_at g p = g'"
    by (rule promote_at_occupied)
  from count_pieces_set[OF s assms] p show ?thesis by simp
qed

lemma promote_at_king:
  assumes "grid_get g p = Inr (Some piece)" and "is_king piece"
  shows "promote_at g p = g"
  using assms grid_set_same_value[OF assms(1)]
  by (simp add: promote_at_def promote_king)

text \<open>The two cell assignments of a move from an occupied cell to an empty one.\<close>

lemma move_cells:
  assumes s: "grid_get g start = Inr (Some piece)" and e: "grid_get g end = Inr None"
  shows "\<exists>g1 g2. grid_set g end (Some piece) = Inr g1 \<and>
           grid_set g1 start None = Inr g2 \<and>
           (\<forall>q. grid_get g2 q =
              (if cell_of g q = cell_of g start then Inr None
               else if cell_of g q = cell_of g end then Inr (Some piece)
               else grid_get g q)) \<and>
           (\<forall>q. cell_of g2 q = cell_of g q) \<and>
           cell_of g start \<noteq> cell_of g end \<and>
           count_pieces g2 = count_pieces g"
proof -
  from s e obtain g1 g2 where g1: "grid_set g end (Some piece) = Inr g1"
    and g2: "grid_set g1 start None = Inr g2"
    by (rule move_two_sets)
  have ne: "cell_of g start \<noteq> cell_of g end"
    using cells_differ[OF s e] by simp
  have c1: "\<And>q. cell_of g1 q = cell_of g q"
    by (rule cell_of_set[OF g1])
  have c2: "\<forall>q. cell_of g2 q = cell_of g q"
    using cell_of_set[OF g2] c1 by simp
  have get1: "\<And>q. grid_get g1 q = (if cell_of g q = cell_of g end then Inr (Some piece) else grid_get g q)"
    by (rule grid_get_set_cell[OF g1])
  have get2: "\<forall>q. grid_get g2 q =
            (if cell_of g q = cell_of g start then Inr None
             else if cell_of g q = cell_of g end then Inr (Some piece)
             else grid_get g q)"
    using grid_get_set_cell[OF g2] by (simp add: c1 get1)
  have s1: "grid_get g1 start = Inr (Some piece)"
    using get1[of start] ne s by simp
  have "count_pieces g1 = count_pieces g + 1"
    using count_pieces_set[OF g1 e] by simp
  moreover have "count_pieces g2 + 1 = count_pieces g1"
    using count_pieces_set[OF g2 s1] by simp
  ultimately have cnt: "count_pieces g2 = count_pieces g" by simp
  show ?thesis
    using g1 g2 get2 c2 ne cnt by (intro exI conjI)
qed

lemma CheckersBoard_move_piece_invalid:
  assumes "grid_get (board self) start = Inr (Some piece)"
      and "CheckersBoard_is_valid_move self piece start end = Inr (False, s0)"
  shows "CheckersBoard_move_piece self start end = (Rejected, self)"
  using assms CheckersBoard_is_valid_move_False[OF assms(2)]
  by (simp add: CheckersBoard_move_piece_def)

lemma CheckersBoard_move_piece_valid:
  assumes "grid_get (board self) start = Inr (Some piece)"
      and "CheckersBoard_is_valid_move self piece start end = Inr (True, s0)"
      and "grid_set (board s0) end (Some piece) = Inr g1"
      and "grid_set g1 start None = Inr g2"
  shows "CheckersBoard_move_piece self start end =
           (Applied,
            s0\<lparr>board := (if (color piece = White \<and> fst end = 0) \<or> (color piece = Black \<and> fst end = 7)
                          then promote_at g2 end else g2),
               move_history := move_history s0 @ [board s0]\<rparr>)"
  using assms
  by (auto simp: CheckersBoard_move_piece_def deepcopy_def Let_def)

lemma CheckersBoard_move_piece_Applied:
  assumes "fst (CheckersBoard_move_piece self start end) = Applied"
  obtains piece s0 where "grid_get (board self) start = Inr (Some piece)"
    and "CheckersBoard_is_valid_move self piece start end = Inr (True, s0)"
  using assms
  by (auto simp: CheckersBoard_move_piece_def Let_def
           split: sum.splits option.splits bool.splits prod.splits if_splits)

text \<open>The board after a successful validation still has the piece at the start and
  nothing at the end.\<close>

lemma is_valid_move_True_cells:
  assumes s: "grid_get (board self) start = Inr (Some piece)"
      and v: "CheckersBoard_is_valid_move self piece start end = Inr (True, s0)"
  shows "grid_get (board s0) start = Inr (Some piece)"
    and "grid_get (board s0) end = Inr None"
    and "\<And>q. cell_of (board s0) q = cell_of (board self) q"
proof -
  note e = is_valid_move_True(1)[OF v]
  from is_valid_move_True(3)[OF v]
  consider "s0 = self"
    | jumped g where "grid_get (board self) (midpoint start end) = Inr (Some jumped)"
        "color jumped \<noteq> color piece"
        "grid_set (board self) (midpoint start end) None = Inr g" "s0 = self\<lparr>board := g\<rparr>"
    by blast
  then have h: "grid_get (board s0) start = Inr (Some piece) \<and> grid_get (board s0) end = Inr None
      \<and> (\<forall>q. cell_of (board s0) q = cell_of (board self) q)"
  proof cases
    case 1
    with s e show ?thesis by simp
  next
    case 2
    have ms: "cell_of (board self) start \<noteq> cell_of (board self) (midpoint start end)"
      using cells_differ[OF s 2(1)] 2(2) by auto
    have me: "cell_of (board self) end \<noteq> cell_of (board self) (midpoint start end)"
      using cells_differ[OF e 2(1)] by simp
    show ?thesis
      using grid_get_set_cell[OF 2(3)] cell_of_set[OF 2(3)] ms me s e 2(4) by simp
  qed
  from h show "grid_get (board s0) start = Inr (Some piece)" by simp
  from h show "grid_get (board s0) end = Inr None" by simp
  fix q
  from h show "cell_of (board s0) q = cell_of (board self) q" by blast
qed

lemma CheckersBoard_move_piece_effect:
  assumes s: "grid_get (board self) start = Inr (Some piece)"
      and v: "CheckersBoard_is_valid_move self piece start end = Inr (True, s0)"
  shows "\<exists>gf. CheckersBoard_move_piece self start end =
                (Applied, s0\<lparr>board := gf, move_history := move_history self @ [board s0]\<rparr>) \<and>
              (\<forall>q. grid_get gf q =
                 (if cell_of (board self) q = cell_of (board self) start then Inr None
                  else if cell_of (board self) q = cell_of (board self) end
                       then Inr (Some (if lands_on_last_rank piece end then promote piece else piece))
                  else grid_get (board s0) q)) \<and>
              cell_of (board self) start \<noteq> cell_of (board self) end \<and>
              count_pieces gf = count_pieces (board s0)"
proof -
  note s0 = is_valid_move_True_cells[OF s v]
  note h = is_valid_move_True(2)[OF v]
  from move_cells[OF s0(1) s0(2)]
  obtain g1 g2 where g1: "grid_set (board s0) end (Some piece) = Inr g1"
    and g2: "grid_set g1 start None = Inr g2"
    and get2': "\<forall>q. grid_get g2 q =
            (if cell_of (board s0) q = cell_of (board s0) start then Inr None
             else if cell_of (board s0) q = cell_of (board s0) end then Inr (Some piece)
             else grid_get (board s0) q)"
    and c2': "\<forall>q. cell_of g2 q = cell_of (board s0) q"
    and ne': "cell_of (board s0) start \<noteq> cell_of (board s0) end"
    and cnt: "count_pieces g2 = count_pieces (board s0)"
    by blast
  have c2: "cell_of g2 q = cell_of (board self) q" for q
    using c2'[rule_format, of q] s0(3)[of q] by simp
  have ne: "cell_of (board self) start \<noteq> cell_of (board self) end"
    using ne' s0(3)[of start] s0(3)[of "end"] by simp
  have get2: "grid_get g2 q =
            (if cell_of (board self) q = cell_of (board self) start then Inr None
             else if cell_of (board self) q = cell_of (board self) end then Inr (Some piece)
             else grid_get (board s0) q)" for q
    using get2'[rule_format, of q] s0(3)[of start] s0(3)[of "end"] s0(3)[of q] by simp
  have e2: "grid_get g2 end = Inr (Some piece)"
    using get2[of "end"] ne by simp
  let ?gf = "if lands_on_last_rank piece end then promote_at g2 end else g2"
  have m: "CheckersBoard_move_piece self start end =
             (Applied, s0\<lparr>board := ?gf, move_history := move_history self @ [board s0]\<rparr>)"
    using CheckersBoard_move_piece_valid[OF s v g1 g2] h
    by (simp add: lands_on_last_rank_def)
  have getf: "grid_get ?gf q =
                 (if cell_of (board self) q = cell_of (board self) start then Inr None
                  else if cell_of (board self) q = cell_of (board self) end
                       then Inr (Some (if lands_on_last_rank piece end then promote piece else piece))
                  else grid_get (board s0) q)" for q
  proof (cases "lands_on_last_rank piece end")
    case True
    have "grid_get (promote_at g2 end) q =
            (if cell_of (board self) q = cell_of (board self) end
             then Inr (Some (promote piece)) else grid_get g2 q)"
      using promote_at_get[OF e2, of q] by (simp add: c2)
    with True ne show ?thesis by (simp add: get2)
  next
    case False
    then show ?thesis by (simp add: get2)
  qed
  have cntf: "count_pieces ?gf = count_pieces (board s0)"
    using promote_at_count[OF e2] cnt by simp
  show ?thesis
  proof (intro exI conjI allI)
    show "CheckersBoard_move_piece self start end =
             (Applied, s0\<lparr>board := ?gf, move_history := move_history self @ [board s0]\<rparr>)"
      by (rule m)
    show "count_pieces ?gf = count_pieces (board s0)" by (rule cntf)
    show "cell_of (board self) start \<noteq> cell_of (board self) end" by (rule ne)
  next
    fix q
    show "grid_get ?gf q =
                 (if cell_of (board self) q = cell_of (board self) start then Inr None
                  else if cell_of (board self) q = cell_of (board self) end
                       then Inr (Some (if lands_on_last_rank piece end then promote piece else piece))
                  else grid_get (board s0) q)"
      by (rule getf)
  qed
qed

lemma CheckersBoard_move_piece_rejected:
  assumes "fst (CheckersBoard_move_piece self start end) = Rejected"
  shows "snd (CheckersBoard_move_piece self start end) = self"
  using assms
  by (auto simp: CheckersBoard_move_piece_def Let_def
           split: sum.splits option.splits if_splits bool.splits prod.splits
           dest: CheckersBoard_is_valid_move_False)

lemma CheckersBoard_moved_piece:
  assumes "grid_get (board self) start = Inr (Some piece)"
      and "fst (CheckersBoard_move_piece self start end) = Applied"
  shows "(lands_on_last_rank piece end \<longrightarrow>
            grid_get (board (snd (CheckersBoard_move_piece self start end))) end =
              Inr (Some (piece\<lparr>is_king := True\<rparr>))) \<and>
         (\<exists>moved. grid_get (board (snd (CheckersBoard_move_piece self start end))) end =
              Inr (Some moved) \<and> color moved = color piece \<and>
              (is_king piece \<longrightarrow> is_king moved))"
proof -
  from assms(2) obtain p' s0 where s': "grid_get (board self) start = Inr (Some p')"
    and v': "CheckersBoard_is_valid_move self p' start end = Inr (True, s0)"
    by (rule CheckersBoard_move_piece_Applied)
  from s' assms(1) have "p' = piece" by simp
  with v' have v: "CheckersBoard_is_valid_move self piece start end = Inr (True, s0)" by simp
  from CheckersBoard_move_piece_effect[OF assms(1) v]
  obtain gf where gf: "CheckersBoard_move_piece self start end =
                (Applied, s0\<lparr>board := gf, move_history := move_history self @ [board s0]\<rparr>) \<and>
              (\<forall>q. grid_get gf q =
                 (if cell_of (board self) q = cell_of (board self) start then Inr None
                  else if cell_of (board self) q = cell_of (board self) end
                       then Inr (Some (if lands_on_last_rank piece end then promote piece else piece))
                  else grid_get (board s0) q)) \<and>
              cell_of (board self) start \<noteq> cell_of (board self) end \<and>
              count_pieces gf = count_pieces (board s0)" ..
  note m = gf[THEN conjunct1]
  note get = gf[THEN conjunct2, THEN conjunct1, rule_format]
  note ne = gf[THEN conjunct2, THEN conjunct2, THEN conjunct1]
  have "grid_get gf end = Inr (Some (if lands_on_last_rank piece end then promote piece else piece))"
    using get[of "end"] ne by simp
  with m show ?thesis by (auto simp: promote_def)
qed

section \<open>Checkers: the claims about jumps, kings and promotion\<close>

text \<open>
  Claim C3. A move of a piece that is not a king, two rows forward for its colour and
  two columns to either side, onto an empty cell, is applied exactly when the cell
  midway holds a piece of the other colour. The applied jump clears the cell midway,
  assigns the end cell the piece and clears the start cell: afterwards the start cell
  and the cell midway are empty, the end cell holds the piece (as a king if it landed on
  its last rank) and every other cell holds what it held; the grid pushed onto the
  history is the one with the cell midway already cleared. A move that is not applied is
  rejected and leaves the board as it was. On the 8 by 8 board the cell midway is always
  on the grid (\<open>midpoint_on_grid\<close>). The witness is the example of the specification:
  white on (5,2), black on (4,3), (3,4) empty.
\<close>

theorem C3_jump_capture:
  assumes "grid_get (board self) start = Inr (Some piece)" and "\<not> is_king piece"
      and "grid_get (board self) end = Inr None"
      and "fst end - fst start = 2 * direction piece" and "\<bar>snd end - snd start\<bar> = 2"
      and "grid_get (board self) (midpoint start end) = Inr m"
  shows "(fst (CheckersBoard_move_piece self start end) = Applied \<longleftrightarrow>
            (\<exists>jumped. m = Some jumped \<and> color jumped \<noteq> color piece)) \<and>
         (fst (CheckersBoard_move_piece self start end) = Applied \<longrightarrow>
            (\<exists>g0 g1 g2.
               grid_set (board self) (midpoint start end) None = Inr g0 \<and>
               grid_set g0 end (Some piece) = Inr g1 \<and>
               grid_set g1 start None = Inr g2 \<and>
               CheckersBoard_move_piece self start end =
                 (Applied,
                  self\<lparr>board := (if lands_on_last_rank piece end then promote_at g2 end else g2),
                       move_history := move_history self @ [g0]\<rparr>)) \<and>
            (\<forall>q. grid_get (board (snd (CheckersBoard_move_piece self start end))) q =
                 (if cell_of (board self) q = cell_of (board self) start then Inr None
                  else if cell_of (board self) q = cell_of (board self) end
                       then Inr (Some (if lands_on_last_rank piece end then promote piece else piece))
                  else if cell_of (board self) q = cell_of (board self) (midpoint start end)
                       then Inr None
                  else grid_get (board self) q)) \<and>
            grid_get (board (snd (CheckersBoard_move_piece self start end))) (midpoint start end)
              = Inr None) \<and>
         (fst (CheckersBoard_move_piece self start end) \<noteq> Applied \<longrightarrow>
            CheckersBoard_move_piece self start end = (Rejected, self))"
proof (cases "\<exists>jumped. m = Some jumped \<and> color jumped \<noteq> color piece")
  case True
  then obtain jumped where j: "m = Some jumped" "color jumped \<noteq> color piece" by blast
  from assms(6) obtain g0 where g0: "grid_set (board self) (midpoint start end) None = Inr g0"
    using grid_set_of_get by blast
  have mid: "grid_get (board self) (midpoint start end) = Inr (Some jumped)"
    using assms(6) j(1) by simp
  have v: "CheckersBoard_is_valid_move self piece start end = Inr (True, self\<lparr>board := g0\<rparr>)"
    by (rule is_valid_move_jump_capture[OF assms(3) assms(2) assms(4) assms(5) mid j(2) g0])
  have s0: "grid_get g0 start = Inr (Some piece)" and e0: "grid_get g0 end = Inr None"
    using is_valid_move_True_cells(1,2)[OF assms(1) v] by simp_all
  from s0 e0 obtain g1 g2 where g1: "grid_set g0 end (Some piece) = Inr g1"
    and g2: "grid_set g1 start None = Inr g2"
    by (rule move_two_sets)
  have g1': "grid_set (board (self\<lparr>board := g0\<rparr>)) end (Some piece) = Inr g1"
    using g1 by simp
  let ?gf = "if lands_on_last_rank piece end then promote_at g2 end else g2"
  have mv: "CheckersBoard_move_piece self start end =
             (Applied, self\<lparr>board := ?gf, move_history := move_history self @ [g0]\<rparr>)"
    using CheckersBoard_move_piece_valid[OF assms(1) v g1' g2]
    by (simp add: lands_on_last_rank_def)
  have c0: "cell_of g0 q = cell_of (board self) q" for q
    by (rule cell_of_set[OF g0])
  have get0: "grid_get g0 q =
                (if cell_of (board self) q = cell_of (board self) (midpoint start end) then Inr None
                 else grid_get (board self) q)" for q
    by (rule grid_get_set_cell[OF g0])
  have get2: "grid_get g2 q =
           (if cell_of (board self) q = cell_of (board self) start then Inr None
            else if cell_of (board self) q = cell_of (board self) end then Inr (Some piece)
            else if cell_of (board self) q = cell_of (board self) (midpoint start end) then Inr None
            else grid_get (board self) q)" for q
    using two_sets_cells[OF s0 g1 g2, of q] by (simp add: c0 get0)
  have ne: "cell_of (board self) start \<noteq> cell_of (board self) end"
    using cells_differ[OF assms(1) assms(3)] by simp
  have ms: "cell_of (board self) (midpoint start end) \<noteq> cell_of (board self) start"
    using cells_differ[OF mid assms(1)] j(2) by auto
  have me: "cell_of (board self) (midpoint start end) \<noteq> cell_of (board self) end"
    using cells_differ[OF mid assms(3)] by simp
  have c2: "cell_of g2 q = cell_of (board self) q" for q
    using cell_of_set[OF g2, of q] cell_of_set[OF g1, of q] c0[of q] by simp
  have e2: "grid_get g2 end = Inr (Some piece)"
    using get2[of "end"] ne by simp
  have getf: "grid_get ?gf q =
           (if cell_of (board self) q = cell_of (board self) start then Inr None
            else if cell_of (board self) q = cell_of (board self) end
                 then Inr (Some (if lands_on_last_rank piece end then promote piece else piece))
            else if cell_of (board self) q = cell_of (board self) (midpoint start end) then Inr None
            else grid_get (board self) q)" for q
  proof (cases "lands_on_last_rank piece end")
    case True
    have "grid_get (promote_at g2 end) q =
            (if cell_of (board self) q = cell_of (board self) end
             then Inr (Some (promote piece)) else grid_get g2 q)"
      using promote_at_get[OF e2, of q] by (simp add: c2)
    with True ne show ?thesis by (simp add: get2)
  next
    case False
    then show ?thesis by (simp add: get2)
  qed
  have a: "fst (CheckersBoard_move_piece self start end) = Applied"
    using mv by simp
  have st: "\<exists>g0 g1 g2.
               grid_set (board self) (midpoint start end) None = Inr g0 \<and>
               grid_set g0 end (Some piece) = Inr g1 \<and>
               grid_set g1 start None = Inr g2 \<and>
               CheckersBoard_move_piece self start end =
                 (Applied,
                  self\<lparr>board := (if lands_on_last_rank piece end then promote_at g2 end else g2),
                       move_history := move_history self @ [g0]\<rparr>)"
    using g0 g1 g2 mv by blast
  have bd: "board (snd (CheckersBoard_move_piece self start end)) = ?gf"
    using mv by simp
  have cells: "\<forall>q. grid_get (board (snd (CheckersBoard_move_piece self start end))) q =
                 (if cell_of (board self) q = cell_of (board self) start then Inr None
                  else if cell_of (board self) q = cell_of (board self) end
                       then Inr (Some (if lands_on_last_rank piece end then promote piece else piece))
                  else if cell_of (board self) q = cell_of (board self) (midpoint start end)
                       then Inr None
                  else grid_get (board self) q)"
    unfolding bd using getf by blast
  have b: "grid_get (board (snd (CheckersBoard_move_piece self start end))) (midpoint start end)
             = Inr None"
    unfolding bd using getf[of "midpoint start end"] ms me by simp
  from a st cells b True show ?thesis by blast
next
  case False
  have v: "CheckersBoard_is_valid_move self piece start end = Inr (False, self)"
    by (rule is_valid_move_jump_no_capture[OF assms(3) assms(2) assms(4) assms(5) assms(6) False])
  have r: "CheckersBoard_move_piece self start end = (Rejected, self)"
    by (rule CheckersBoard_move_piece_invalid[OF assms(1) v])
  then have a: "fst (CheckersBoard_move_piece self start end) \<noteq> Applied"
    by simp
  from a r False show ?thesis by blast
qed

theorem C3_jump_capture_witness:
  "grid_get (board jump_example) (5, 2) = Inr (Some (new_CheckersPiece White)) \<and>
   grid_get (board jump_example) (4, 3) = Inr (Some (new_CheckersPiece Black)) \<and>
   grid_get (board jump_example) (3, 4) = Inr None \<and>
   fst (CheckersBoard_move_piece jump_example (5, 2) (3, 4)) = Applied \<and>
   grid_get (board (snd (CheckersBoard_move_piece jump_example (5, 2) (3, 4)))) (5, 2) = Inr None \<and>
   grid_get (board (snd (CheckersBoard_move_piece jump_example (5, 2) (3, 4)))) (4, 3) = Inr None \<and>
   grid_get (board (snd (CheckersBoard_move_piece jump_example (5, 2) (3, 4)))) (3, 4) =
     Inr (Some (new_CheckersPiece White)) \<and>
   count_pieces (board jump_example) = 2 \<and>
   count_pieces (board (snd (CheckersBoard_move_piece jump_example (5, 2) (3, 4)))) = 1 \<and>
   length (move_history (snd (CheckersBoard_move_piece jump_example (5, 2) (3, 4)))) = 1"
proof -
  have a: "grid_get (board jump_example) (5, 2) = Inr (Some (new_CheckersPiece White))"
    by code_simp
  have b: "\<not> is_king (new_CheckersPiece White)"
    by (simp add: new_CheckersPiece_def)
  have c: "grid_get (board jump_example) (3, 4) = Inr None"
    by code_simp
  have d: "fst (3::int, 4::int) - fst (5::int, 2::int) = 2 * direction (new_CheckersPiece White)"
    by (simp add: direction_def new_CheckersPiece_def)
  have e: "\<bar>snd (3::int, 4::int) - snd (5::int, 2::int)\<bar> = 2"
    by simp
  have m: "midpoint (5, 2) (3, 4) = (4, 3)"
    by (simp add: midpoint_def)
  have f: "grid_get (board jump_example) (midpoint (5, 2) (3, 4)) = Inr (Some (new_CheckersPiece Black))"
    unfolding m by code_simp
  have g: "color (new_CheckersPiece Black) \<noteq> color (new_CheckersPiece White)"
    by (simp add: new_CheckersPiece_def)
  have l: "\<not> lands_on_last_rank (new_CheckersPiece White) (3, 4)"
    by (simp add: lands_on_last_rank_def new_CheckersPiece_def)
  have cs: "cell_of (board jump_example) (5, 2) = Some (5, 2)" by code_simp
  have ce: "cell_of (board jump_example) (3, 4) = Some (3, 4)" by code_simp
  have cm: "cell_of (board jump_example) (4, 3) = Some (4, 3)" by code_simp
  note t = C3_jump_capture[OF a b c d e f]
  have ap: "fst (CheckersBoard_move_piece jump_example (5, 2) (3, 4)) = Applied"
    using t g by blast
  from t ap obtain g0 g1 g2 where
        mv: "CheckersBoard_move_piece jump_example (5, 2) (3, 4) =
                 (Applied,
                  jump_example\<lparr>board := (if lands_on_last_rank (new_CheckersPiece White) (3, 4)
                                          then promote_at g2 (3, 4) else g2),
                       move_history := move_history jump_example @ [g0]\<rparr>)"
    by blast
  have hl: "length (move_history (snd (CheckersBoard_move_piece jump_example (5, 2) (3, 4)))) = 1"
    using mv by (simp add: jump_example_def)
  from t ap have cells: "\<forall>q. grid_get (board (snd (CheckersBoard_move_piece jump_example (5, 2) (3, 4)))) q =
                 (if cell_of (board jump_example) q = cell_of (board jump_example) (5, 2) then Inr None
                  else if cell_of (board jump_example) q = cell_of (board jump_example) (3, 4)
                       then Inr (Some (if lands_on_last_rank (new_CheckersPiece White) (3, 4)
                                       then promote (new_CheckersPiece White)
                                       else new_CheckersPiece White))
                  else if cell_of (board jump_example) q =
                          cell_of (board jump_example) (midpoint (5, 2) (3, 4))
                       then Inr None
                  else grid_get (board jump_example) q)"
    by blast
  have 1: "grid_get (board (snd (CheckersBoard_move_piece jump_example (5, 2) (3, 4)))) (5, 2) = Inr None"
    using cells[rule_format, of "(5, 2)"] by simp
  have 2: "grid_get (board (snd (CheckersBoard_move_piece jump_example (5, 2) (3, 4)))) (4, 3) = Inr None"
    using cells[rule_format, of "(4, 3)"] by (simp add: m cs ce cm)
  have 3: "grid_get (board (snd (CheckersBoard_move_piece jump_example (5, 2) (3, 4)))) (3, 4) =
     Inr (Some (new_CheckersPiece White))"
    using cells[rule_format, of "(3, 4)"] l by (simp add: cs ce)
  have 4: "count_pieces (board jump_example) = 2" by code_simp
  have 5: "count_pieces (board (snd (CheckersBoard_move_piece jump_example (5, 2) (3, 4)))) = 1"
    by code_simp
  from a f[unfolded m] c ap 1 2 3 4 5 hl show ?thesis by (intro conjI)
qed

text \<open>
  Claim C6. For a king, validation answers from the end cell and the geometry alone and
  hands the board back untouched: the move is applied exactly when the end cell is empty
  and \<open>|dx| = |dy|\<close> is 1 or 2. An applied king move is the two cell assignments on the
  grid of before the call and nothing else, so no cell in between is cleared.
\<close>

theorem C6_king_move:
  assumes "grid_get (board self) start = Inr (Some piece)" and "is_king piece"
      and "grid_get (board self) end = Inr c"
  shows "CheckersBoard_is_valid_move self piece start end =
           Inr (c = None \<and> \<bar>fst end - fst start\<bar> = \<bar>snd end - snd start\<bar> \<and>
                \<bar>snd end - snd start\<bar> \<in> {1, 2}, self) \<and>
         (fst (CheckersBoard_move_piece self start end) = Applied \<longleftrightarrow>
            c = None \<and> \<bar>fst end - fst start\<bar> = \<bar>snd end - snd start\<bar> \<and>
            \<bar>snd end - snd start\<bar> \<in> {1, 2}) \<and>
         (fst (CheckersBoard_move_piece self start end) = Applied \<longrightarrow>
            (\<exists>g1 g2. grid_set (board self) end (Some piece) = Inr g1 \<and>
                     grid_set g1 start None = Inr g2 \<and>
                     snd (CheckersBoard_move_piece self start end) =
                       self\<lparr>board := g2, move_history := move_history self @ [board self]\<rparr>)) \<and>
         (fst (CheckersBoard_move_piece self start end) \<noteq> Applied \<longrightarrow>
            CheckersBoard_move_piece self start end = (Rejected, self))"
proof -
  let ?ok = "c = None \<and> \<bar>fst end - fst start\<bar> = \<bar>snd end - snd start\<bar> \<and>
                \<bar>snd end - snd start\<bar> \<in> {1, 2}"
  have v: "CheckersBoard_is_valid_move self piece start end = Inr (?ok, self)"
  proof (cases c)
    case None
    with assms show ?thesis by (simp add: is_valid_move_king)
  next
    case (Some q)
    with assms show ?thesis by (simp add: is_valid_move_occupied)
  qed
  show ?thesis
  proof (cases ?ok)
    case False
    with v have "CheckersBoard_is_valid_move self piece start end = Inr (False, self)" by simp
    from CheckersBoard_move_piece_invalid[OF assms(1) this] v False show ?thesis by simp
  next
    case True
    with v have vt: "CheckersBoard_is_valid_move self piece start end = Inr (True, self)" by simp
    from True assms(3) have e: "grid_get (board self) end = Inr None" by simp
    from move_cells[OF assms(1) e]
    obtain g1 g2 where g1: "grid_set (board self) end (Some piece) = Inr g1"
      and g2: "grid_set g1 start None = Inr g2"
      and get2: "\<forall>q. grid_get g2 q =
            (if cell_of (board self) q = cell_of (board self) start then Inr None
             else if cell_of (board self) q = cell_of (board self) end then Inr (Some piece)
             else grid_get (board self) q)"
      and ne: "cell_of (board self) start \<noteq> cell_of (board self) end"
      by blast
    have e2: "grid_get g2 end = Inr (Some piece)"
      using get2[rule_format, of "end"] ne by simp
    have "CheckersBoard_move_piece self start end =
            (Applied, self\<lparr>board := g2, move_history := move_history self @ [board self]\<rparr>)"
      using CheckersBoard_move_piece_valid[OF assms(1) vt g1 g2]
            promote_at_king[OF e2 assms(2)]
      by simp
    with v True g1 g2 show ?thesis by simp
  qed
qed

theorem C6_king_move_witness:
  "is_king (promote (new_CheckersPiece White)) \<and>
   fst (CheckersBoard_move_piece king_example (4, 3) (6, 5)) = Applied \<and>
   fst (CheckersBoard_move_piece king_example (4, 3) (7, 6)) = Rejected \<and>
   fst (CheckersBoard_move_piece king_example (4, 3) (5, 4)) = Rejected"
proof -
  have k: "is_king (promote (new_CheckersPiece White))"
    by (simp add: promote_def)
  have a: "grid_get (board king_example) (4, 3) = Inr (Some (promote (new_CheckersPiece White)))"
    by code_simp
  have b: "grid_get (board king_example) (6, 5) = Inr None"
    by code_simp
  have c: "grid_get (board king_example) (7, 6) = Inr None"
    by code_simp
  have d: "grid_get (board king_example) (5, 4) = Inr (Some (new_CheckersPiece Black))"
    by code_simp
  have 1: "fst (CheckersBoard_move_piece king_example (4, 3) (6, 5)) = Applied"
    using C6_king_move[OF a k b] by simp
  have 2: "fst (CheckersBoard_move_piece king_example (4, 3) (7, 6)) = Rejected"
    using C6_king_move[OF a k c] by auto
  have 3: "fst (CheckersBoard_move_piece king_example (4, 3) (5, 4)) = Rejected"
    using C6_king_move[OF a k d] by auto
  from k 1 2 3 show ?thesis
    by (intro conjI)
qed

text \<open>
  Claim C4. A call of \<open>move_piece\<close> that ends in the rejection branch returns the board it
  was given, grid and history, on all three boards.
\<close>

theorem C4_rejected_unchanged:
  "(fst (ChessBoard_move_piece self start end) = Rejected \<longrightarrow>
      snd (ChessBoard_move_piece self start end) = self) \<and>
   (fst (HexChessBoard_move_piece self start end) = Rejected \<longrightarrow>
      snd (HexChessBoard_move_piece self start end) = self) \<and>
   (fst (CheckersBoard_move_piece cself cstart cend) = Rejected \<longrightarrow>
      snd (CheckersBoard_move_piece cself cstart cend) = cself)"
  using ChessBoard_move_piece_rejected[of self start "end"]
        CheckersBoard_move_piece_rejected[of cself cstart cend]
  by (simp add: HexChessBoard_move_piece_eq)

theorem C4_rejected_unchanged_witness:
  "fst (ChessBoard_move_piece ChessBoard_init (4, 4) (3, 3)) = Rejected \<and>
   snd (ChessBoard_move_piece ChessBoard_init (4, 4) (3, 3)) = ChessBoard_init \<and>
   fst (HexChessBoard_move_piece HexChessBoard_init (5, 5) (3, 3)) = Rejected \<and>
   snd (HexChessBoard_move_piece HexChessBoard_init (5, 5) (3, 3)) = HexChessBoard_init \<and>
   fst (CheckersBoard_move_piece CheckersBoard_init (5, 2) (3, 4)) = Rejected \<and>
   snd (CheckersBoard_move_piece CheckersBoard_init (5, 2) (3, 4)) = CheckersBoard_init"
proof -
  have a: "fst (ChessBoard_move_piece ChessBoard_init (4, 4) (3, 3)) = Rejected"
    by code_simp
  have b: "fst (HexChessBoard_move_piece HexChessBoard_init (5, 5) (3, 3)) = Rejected"
    by code_simp
  have c: "fst (CheckersBoard_move_piece CheckersBoard_init (5, 2) (3, 4)) = Rejected"
    by code_simp
  from C4_rejected_unchanged[of ChessBoard_init "(4, 4)" "(3, 3)" CheckersBoard_init "(5, 2)" "(3, 4)"]
       C4_rejected_unchanged[of HexChessBoard_init "(5, 5)" "(3, 3)" CheckersBoard_init "(5, 2)" "(3, 4)"]
       a b c
  show ?thesis by simp
qed

section \<open>Undo\<close>

text \<open>
  Claim C9, as the code has it. \<open>undo_move\<close> has no \<open>return\<close> statement: it returns
  \<open>None\<close> whether or not it undid anything. With a history that is not empty the grid
  becomes the last snapshot, which leaves the history; with an empty history the board
  stays as it is.
\<close>

theorem C9_undo_move:
  "fst (ChessBoard_undo_move self) = PyNone \<and>
   fst (HexChessBoard_undo_move self) = PyNone \<and>
   fst (CheckersBoard_undo_move cself) = PyNone \<and>
   (move_history self \<noteq> [] \<longrightarrow>
      snd (ChessBoard_undo_move self) =
        self\<lparr>board := last (move_history self), move_history := butlast (move_history self)\<rparr> \<and>
      snd (HexChessBoard_undo_move self) =
        self\<lparr>board := last (move_history self), move_history := butlast (move_history self)\<rparr>) \<and>
   (move_history cself \<noteq> [] \<longrightarrow>
      snd (CheckersBoard_undo_move cself) =
        cself\<lparr>board := last (move_history cself), move_history := butlast (move_history cself)\<rparr>) \<and>
   (move_history self = [] \<longrightarrow>
      snd (ChessBoard_undo_move self) = self \<and> snd (HexChessBoard_undo_move self) = self) \<and>
   (move_history cself = [] \<longrightarrow> snd (CheckersBoard_undo_move cself) = cself)"
  by (simp add: ChessBoard_undo_move_def HexChessBoard_undo_move_def CheckersBoard_undo_move_def)

theorem C9_undo_move_witness:
  "move_history (snd (ChessBoard_move_piece ChessBoard_init (6, 4) (4, 4))) \<noteq> [] \<and>
   fst (ChessBoard_undo_move (snd (ChessBoard_move_piece ChessBoard_init (6, 4) (4, 4)))) = PyNone \<and>
   snd (ChessBoard_undo_move (snd (ChessBoard_move_piece ChessBoard_init (6, 4) (4, 4)))) =
     ChessBoard_init \<and>
   move_history CheckersBoard_init = [] \<and>
   CheckersBoard_undo_move CheckersBoard_init = (PyNone, CheckersBoard_init)"
proof -
  have a: "move_history (snd (ChessBoard_move_piece ChessBoard_init (6, 4) (4, 4))) =
             [board ChessBoard_init]"
    by code_simp
  have b: "move_history CheckersBoard_init = []"
    by (simp add: CheckersBoard_init_def)
  have c: "snd (ChessBoard_move_piece ChessBoard_init (6, 4) (4, 4))
             \<lparr>board := board ChessBoard_init, move_history := []\<rparr> = ChessBoard_init"
    by (simp add: ChessBoard_init_def)
  from C9_undo_move[of "snd (ChessBoard_move_piece ChessBoard_init (6, 4) (4, 4))" CheckersBoard_init]
       a b c
  show ?thesis by (simp add: prod_eq_iff)
qed

text \<open>
  Against claim C9 as stated: after one applied move the history is not empty and
  \<open>undo_move\<close> restores the initial board, yet what it returns is not \<open>True\<close>.
\<close>

theorem C9_undo_returns_bool_counterexample:
  "move_history (snd (ChessBoard_move_piece ChessBoard_init (6, 4) (4, 4))) \<noteq> [] \<and>
   snd (ChessBoard_undo_move (snd (ChessBoard_move_piece ChessBoard_init (6, 4) (4, 4)))) =
     ChessBoard_init \<and>
   fst (ChessBoard_undo_move (snd (ChessBoard_move_piece ChessBoard_init (6, 4) (4, 4)))) \<noteq>
     PyBool True"
  by code_simp

section \<open>Pieces leaving the grid\<close>

lemma set_after_get:
  assumes "grid_get g p = Inr c" and "grid_set g q v = Inr g1"
  shows "\<exists>g2. grid_set g1 p w = Inr g2"
proof -
  from grid_get_set_valid[OF assms(2), of p] assms(1) obtain c' where "grid_get g1 p = Inr c'"
    by blast
  then show ?thesis using grid_set_of_get by blast
qed

lemma ChessBoard_move_piece_off_grid:
  assumes "grid_get (board self) start = Inr (Some piece)"
      and "grid_set (board self) end (Some piece) = Inl e"
  shows "ChessBoard_move_piece self start end =
           (Raised e, self\<lparr>move_history := move_history self @ [board self]\<rparr>)"
  using assms
  by (simp add: ChessBoard_move_piece_def ChessBoard_is_valid_move_def deepcopy_def)

lemma ChessBoard_move_piece_count:
  assumes s: "grid_get (board self) start = Inr (Some piece)"
      and e: "grid_get (board self) end = Inr c"
  shows "fst (ChessBoard_move_piece self start end) = Applied"
    and "count_pieces (board (snd (ChessBoard_move_piece self start end))) +
           (if c = None then 0 else 1) = count_pieces (board self)"
proof -
  from s e obtain g1 g2 where g1: "grid_set (board self) end (Some piece) = Inr g1"
    and g2: "grid_set g1 start None = Inr g2"
    by (rule move_two_sets)
  have m: "ChessBoard_move_piece self start end =
           (Applied, self\<lparr>board := g2, move_history := move_history self @ [board self]\<rparr>)"
    by (rule ChessBoard_move_piece_occupied[OF s g1 g2])
  then show "fst (ChessBoard_move_piece self start end) = Applied" by simp
  have s1: "grid_get g1 start = Inr (Some piece)"
    using grid_get_set_cell[OF g1, of start] s by simp
  have 1: "count_pieces g1 + (if c = None then 0 else 1) = count_pieces (board self) + 1"
    using count_pieces_set[OF g1 e] by simp
  have 2: "count_pieces g2 + 1 = count_pieces g1"
    using count_pieces_set[OF g2 s1] by simp
  from 1 2 have "count_pieces g2 + (if c = None then 0 else 1) = count_pieces (board self)"
    by (simp split: if_splits)
  with m show "count_pieces (board (snd (ChessBoard_move_piece self start end))) +
           (if c = None then 0 else 1) = count_pieces (board self)"
    by simp
qed

lemma ChessBoard_move_piece_never_adds:
  "count_pieces (board (snd (ChessBoard_move_piece self start end))) \<le> count_pieces (board self)"
proof (cases "grid_get (board self) start")
  case (Inl e)
  then show ?thesis by (simp add: ChessBoard_move_piece_def)
next
  case (Inr c)
  show ?thesis
  proof (cases c)
    case None
    with Inr show ?thesis by (simp add: ChessBoard_move_piece_def)
  next
    case (Some piece)
    with Inr have s: "grid_get (board self) start = Inr (Some piece)" by simp
    show ?thesis
    proof (cases "grid_set (board self) end (Some piece)")
      case (Inl e)
      from ChessBoard_move_piece_off_grid[OF s Inl] show ?thesis by simp
    next
      case (Inr g1)
      from grid_get_of_set[OF Inr] obtain d where e: "grid_get (board self) end = Inr d" by blast
      from ChessBoard_move_piece_count(2)[OF s e] show ?thesis by simp
    qed
  qed
qed

lemma is_valid_move_True_count:
  assumes v: "CheckersBoard_is_valid_move self piece start end = Inr (True, s0)"
  shows "count_pieces (board s0) +
           (if \<not> is_king piece \<and> \<bar>fst end - fst start\<bar> = 2 then 1 else 0) =
         count_pieces (board self)"
proof -
  note e = is_valid_move_True(1)[OF v]
  have d: "\<bar>direction piece\<bar> = 1" by (simp add: direction_def)
  show ?thesis
  proof (cases "is_king piece")
    case True
    with v e show ?thesis by (simp add: is_valid_move_king)
  next
    case False
    show ?thesis
    proof (cases "fst end - fst start = direction piece \<and> \<bar>snd end - snd start\<bar> = 1")
      case True
      with v e False have "s0 = self" by (simp add: is_valid_move_step)
      moreover from True d have "\<bar>fst end - fst start\<bar> \<noteq> 2" by simp
      ultimately show ?thesis by simp
    next
      case nstep: False
      show ?thesis
      proof (cases "fst end - fst start = 2 * direction piece \<and> \<bar>snd end - snd start\<bar> = 2")
        case True
        then have dx: "\<bar>fst end - fst start\<bar> = 2" using d by (simp add: abs_mult)
        from v e False True obtain jumped g where
          j: "grid_get (board self) (midpoint start end) = Inr (Some jumped)"
          and g: "grid_set (board self) (midpoint start end) None = Inr g"
          and s0: "s0 = self\<lparr>board := g\<rparr>"
          by (auto simp: is_valid_move_jump split: sum.splits option.splits if_splits)
        from count_pieces_set[OF g j] have "count_pieces g + 1 = count_pieces (board self)"
          by simp
        with False dx s0 show ?thesis by simp
      next
        case njump: False
        with v e False nstep show ?thesis by (simp add: is_valid_move_other)
      qed
    qed
  qed
qed

lemma CheckersBoard_move_piece_count:
  assumes s: "grid_get (board self) start = Inr (Some piece)"
      and a: "fst (CheckersBoard_move_piece self start end) = Applied"
  shows "count_pieces (board (snd (CheckersBoard_move_piece self start end))) +
           (if \<not> is_king piece \<and> \<bar>fst end - fst start\<bar> = 2 then 1 else 0) =
         count_pieces (board self)"
proof -
  from a obtain p' s0 where s': "grid_get (board self) start = Inr (Some p')"
    and v': "CheckersBoard_is_valid_move self p' start end = Inr (True, s0)"
    by (rule CheckersBoard_move_piece_Applied)
  from s' s have "p' = piece" by simp
  with v' have v: "CheckersBoard_is_valid_move self piece start end = Inr (True, s0)" by simp
  from CheckersBoard_move_piece_effect[OF s v]
  obtain gf where gf: "CheckersBoard_move_piece self start end =
                (Applied, s0\<lparr>board := gf, move_history := move_history self @ [board s0]\<rparr>) \<and>
              (\<forall>q. grid_get gf q =
                 (if cell_of (board self) q = cell_of (board self) start then Inr None
                  else if cell_of (board self) q = cell_of (board self) end
                       then Inr (Some (if lands_on_last_rank piece end then promote piece else piece))
                  else grid_get (board s0) q)) \<and>
              cell_of (board self) start \<noteq> cell_of (board self) end \<and>
              count_pieces gf = count_pieces (board s0)" ..
  have "count_pieces (board (snd (CheckersBoard_move_piece self start end))) = count_pieces (board s0)"
    using gf[THEN conjunct1] gf[THEN conjunct2, THEN conjunct2, THEN conjunct2] by simp
  with is_valid_move_True_count[OF v] show ?thesis by simp
qed

lemma CheckersBoard_move_piece_cases:
  "fst (CheckersBoard_move_piece self start end) = Applied \<or>
   snd (CheckersBoard_move_piece self start end) = self"
proof (cases "grid_get (board self) start")
  case (Inl e)
  then show ?thesis by (simp add: CheckersBoard_move_piece_def)
next
  case (Inr c)
  show ?thesis
  proof (cases c)
    case None
    with Inr show ?thesis by (simp add: CheckersBoard_move_piece_def)
  next
    case (Some piece)
    with Inr have s: "grid_get (board self) start = Inr (Some piece)" by simp
    show ?thesis
    proof (cases "CheckersBoard_is_valid_move self piece start end")
      case (Inl e)
      with s show ?thesis by (simp add: CheckersBoard_move_piece_def)
    next
      case (Inr r)
      obtain ok s0 where r: "r = (ok, s0)" by (cases r)
      show ?thesis
      proof (cases ok)
        case True
        with Inr r have v: "CheckersBoard_is_valid_move self piece start end = Inr (True, s0)"
          by simp
        from CheckersBoard_move_piece_effect[OF s v] show ?thesis by auto
      next
        case False
        with Inr r have v: "CheckersBoard_is_valid_move self piece start end = Inr (False, s0)"
          by simp
        from CheckersBoard_move_piece_invalid[OF s v] show ?thesis by simp
      qed
    qed
  qed
qed

lemma CheckersBoard_move_piece_never_adds:
  "count_pieces (board (snd (CheckersBoard_move_piece self start end))) \<le> count_pieces (board self)"
proof (cases "fst (CheckersBoard_move_piece self start end) = Applied")
  case True
  then obtain piece s0 where s: "grid_get (board self) start = Inr (Some piece)"
    by (rule CheckersBoard_move_piece_Applied)
  from CheckersBoard_move_piece_count[OF s True] show ?thesis by simp
next
  case False
  with CheckersBoard_move_piece_cases[of self start "end"] show ?thesis by simp
qed

text \<open>
  Pushing a snapshot and popping one keep a board \<open>descending\<close>.
\<close>

lemma descending_push:
  assumes d: "descending f N s" and g: "f g \<le> f (board s)" and b: "f b \<le> f g"
  shows "descending f N (s\<lparr>board := b, move_history := move_history s @ [g]\<rparr>)"
proof -
  from d have 1: "sorted_wrt (\<lambda>a b. f b \<le> f a) (move_history s)"
    and 2: "\<forall>x \<in> set (move_history s). f (board s) \<le> f x"
    and 3: "\<forall>x \<in> set (move_history s). f x \<le> N"
    and 4: "f (board s) \<le> N"
    by (simp_all add: descending_def sorted_wrt_append)
  from 2 g have 5: "\<forall>x \<in> set (move_history s). f g \<le> f x"
    using le_trans by blast
  from 5 b have 6: "\<forall>x \<in> set (move_history s). f b \<le> f x"
    using le_trans by blast
  from g 4 have 7: "f g \<le> N" by simp
  from b 7 have 8: "f b \<le> N" by simp
  from 1 3 5 6 7 8 b show ?thesis
    by (simp add: descending_def sorted_wrt_append)
qed

lemma descending_pop:
  assumes d: "descending f N s" and h: "move_history s \<noteq> []"
  shows "descending f N (s\<lparr>board := last (move_history s),
                            move_history := butlast (move_history s)\<rparr>)"
    and "f (board s) \<le> f (last (move_history s))"
proof -
  from d have 1: "sorted_wrt (\<lambda>a b. f b \<le> f a) (move_history s)"
    and 2: "\<forall>x \<in> set (move_history s). f (board s) \<le> f x"
    and 3: "\<forall>x \<in> set (move_history s). f x \<le> N"
    by (simp_all add: descending_def sorted_wrt_append)
  from h have l: "last (move_history s) \<in> set (move_history s)" by simp
  with 2 show "f (board s) \<le> f (last (move_history s))" by blast
  from h have "butlast (move_history s) @ [last (move_history s)] = move_history s" by simp
  with 1 3 show "descending f N (s\<lparr>board := last (move_history s),
                            move_history := butlast (move_history s)\<rparr>)"
    by (simp add: descending_def)
qed

lemma descending_init:
  assumes "move_history s = []"
  shows "descending f (f (board s)) s"
  using assms by (simp add: descending_def)

lemma descending_bound:
  assumes "descending f N s"
  shows "f (board s) \<le> N"
  using assms by (simp add: descending_def)

text \<open>What a call of \<open>move_piece\<close> on the chess board can leave behind.\<close>

lemma ChessBoard_move_piece_not_applied:
  assumes "fst (ChessBoard_move_piece self start end) \<noteq> Applied"
  shows "board (snd (ChessBoard_move_piece self start end)) = board self"
proof (cases "grid_get (board self) start")
  case (Inl e)
  then show ?thesis by (simp add: ChessBoard_move_piece_def)
next
  case (Inr c)
  show ?thesis
  proof (cases c)
    case None
    with Inr show ?thesis by (simp add: ChessBoard_move_piece_def)
  next
    case (Some piece)
    with Inr have s: "grid_get (board self) start = Inr (Some piece)" by simp
    show ?thesis
    proof (cases "grid_set (board self) end (Some piece)")
      case (Inl e)
      from ChessBoard_move_piece_off_grid[OF s Inl] show ?thesis by simp
    next
      case (Inr g1)
      from grid_get_of_set[OF Inr] obtain d where e: "grid_get (board self) end = Inr d" by blast
      from ChessBoard_move_piece_count(1)[OF s e] assms show ?thesis by simp
    qed
  qed
qed

lemma ChessBoard_move_piece_shape:
  "snd (ChessBoard_move_piece self start end) = self \<or>
   (\<exists>b. snd (ChessBoard_move_piece self start end) =
           self\<lparr>board := b, move_history := move_history self @ [board self]\<rparr> \<and>
         (\<forall>P. \<not> P None \<longrightarrow> count_cells P b \<le> count_cells P (board self)))"
proof (cases "grid_get (board self) start")
  case (Inl e)
  then show ?thesis by (simp add: ChessBoard_move_piece_def)
next
  case (Inr c)
  show ?thesis
  proof (cases c)
    case None
    with Inr show ?thesis by (simp add: ChessBoard_move_piece_def)
  next
    case (Some piece)
    with Inr have s: "grid_get (board self) start = Inr (Some piece)" by simp
    show ?thesis
    proof (cases "grid_set (board self) end (Some piece)")
      case (Inl e)
      from ChessBoard_move_piece_off_grid[OF s Inl]
      have "snd (ChessBoard_move_piece self start end) =
              self\<lparr>board := board self, move_history := move_history self @ [board self]\<rparr>"
        by simp
      then show ?thesis by blast
    next
      case (Inr g1)
      from grid_get_of_set[OF Inr] obtain d where e: "grid_get (board self) end = Inr d" by blast
      from set_after_get[OF s Inr] obtain g2 where g2: "grid_set g1 start None = Inr g2" by blast
      have m: "snd (ChessBoard_move_piece self start end) =
                 self\<lparr>board := g2, move_history := move_history self @ [board self]\<rparr>"
        using ChessBoard_move_piece_occupied[OF s Inr g2] by simp
      have "\<forall>P. \<not> P None \<longrightarrow> count_cells P g2 \<le> count_cells P (board self)"
      proof (intro allI impI)
        fix P :: "ChessPiece option \<Rightarrow> bool"
        assume "\<not> P None"
        with two_sets_count[OF s e Inr g2, of P]
        show "count_cells P g2 \<le> count_cells P (board self)" by linarith
      qed
      with m show ?thesis by blast
    qed
  qed
qed

lemma HexChessBoard_undo_move_eq: "HexChessBoard_undo_move = ChessBoard_undo_move"
  unfolding HexChessBoard_undo_move_def ChessBoard_undo_move_def ..

lemma hex_call_eq: "hex_call c s = chess_call c s"
  by (cases c) (simp_all add: HexChessBoard_move_piece_eq HexChessBoard_undo_move_eq)

lemma chess_call_descending:
  assumes P: "\<not> P None" and d: "descending (count_cells P) N s"
  shows "descending (count_cells P) N (chess_call c s)"
proof (cases c)
  case (Move start "end")
  from ChessBoard_move_piece_shape[of s start "end"]
  consider "snd (ChessBoard_move_piece s start end) = s"
    | b where "snd (ChessBoard_move_piece s start end) =
                 s\<lparr>board := b, move_history := move_history s @ [board s]\<rparr>"
              "\<forall>P. \<not> P None \<longrightarrow> count_cells P b \<le> count_cells P (board s)"
    by blast
  then have "descending (count_cells P) N (snd (ChessBoard_move_piece s start end))"
  proof cases
    case 1
    with d show ?thesis by simp
  next
    case 2
    from 2(2) P have "count_cells P b \<le> count_cells P (board s)" by blast
    from descending_push[OF d le_refl this] 2(1) show ?thesis by simp
  qed
  with Move show ?thesis by simp
next
  case Undo
  show ?thesis
  proof (cases "move_history s = []")
    case True
    with d Undo show ?thesis by (simp add: ChessBoard_undo_move_def)
  next
    case False
    from descending_pop(1)[OF d False] False Undo show ?thesis
      by (simp add: ChessBoard_undo_move_def)
  qed
qed

lemma chess_calls_descending:
  assumes P: "\<not> P None" and d: "descending (count_cells P) N s"
  shows "descending (count_cells P) N (fold chess_call calls s)"
  using d
proof (induction calls arbitrary: s)
  case Nil
  then show ?case by simp
next
  case (Cons c calls)
  from chess_call_descending[OF P Cons.prems, of c] Cons.IH[of "chess_call c s"]
  show ?case by simp
qed

lemma hex_calls_eq: "fold hex_call calls s = fold chess_call calls s"
  by (induction calls arbitrary: s) (simp_all add: hex_call_eq)

lemma ChessBoard_undo_move_descending:
  assumes d: "descending f N s"
  shows "f (board s) \<le> f (board (snd (ChessBoard_undo_move s)))"
proof (cases "move_history s = []")
  case True
  then show ?thesis by (simp add: ChessBoard_undo_move_def)
next
  case False
  from descending_pop(2)[OF d False] False show ?thesis
    by (simp add: ChessBoard_undo_move_def)
qed

text \<open>The same for the checkers board, where validation may have cleared a cell.\<close>

lemma is_valid_move_True_shape:
  assumes v: "CheckersBoard_is_valid_move self piece start end = Inr (True, s0)"
  shows "if \<not> is_king piece \<and> \<bar>fst end - fst start\<bar> = 2
         then \<exists>jumped g. grid_get (board self) (midpoint start end) = Inr (Some jumped) \<and>
                color jumped \<noteq> color piece \<and>
                grid_set (board self) (midpoint start end) None = Inr g \<and>
                s0 = self\<lparr>board := g\<rparr>
         else s0 = self"
proof -
  note e = is_valid_move_True(1)[OF v]
  have d: "\<bar>direction piece\<bar> = 1" by (simp add: direction_def)
  show ?thesis
  proof (cases "is_king piece")
    case True
    with v e show ?thesis by (simp add: is_valid_move_king)
  next
    case False
    show ?thesis
    proof (cases "fst end - fst start = direction piece \<and> \<bar>snd end - snd start\<bar> = 1")
      case True
      with v e False have "s0 = self" by (simp add: is_valid_move_step)
      moreover from True d have "\<bar>fst end - fst start\<bar> \<noteq> 2" by simp
      ultimately show ?thesis by simp
    next
      case nstep: False
      show ?thesis
      proof (cases "fst end - fst start = 2 * direction piece \<and> \<bar>snd end - snd start\<bar> = 2")
        case True
        then have dx: "\<bar>fst end - fst start\<bar> = 2" using d by (simp add: abs_mult)
        from v e False True have "\<exists>jumped g. grid_get (board self) (midpoint start end) = Inr (Some jumped) \<and>
                color jumped \<noteq> color piece \<and>
                grid_set (board self) (midpoint start end) None = Inr g \<and>
                s0 = self\<lparr>board := g\<rparr>"
          by (auto simp: is_valid_move_jump split: sum.splits option.splits if_splits)
        with False dx show ?thesis by simp
      next
        case njump: False
        with v e False nstep show ?thesis by (simp add: is_valid_move_other)
      qed
    qed
  qed
qed

lemma CheckersBoard_move_piece_cells:
  assumes s: "grid_get (board self) start = Inr (Some piece)"
      and a: "fst (CheckersBoard_move_piece self start end) = Applied"
  shows "grid_get (board (snd (CheckersBoard_move_piece self start end))) q =
           (if cell_of (board self) q = cell_of (board self) start then Inr None
            else if cell_of (board self) q = cell_of (board self) end
                 then Inr (Some (if lands_on_last_rank piece end then promote piece else piece))
            else if \<not> is_king piece \<and> \<bar>fst end - fst start\<bar> = 2 \<and>
                    cell_of (board self) q = cell_of (board self) (midpoint start end)
                 then Inr None
            else grid_get (board self) q)"
proof -
  from a obtain p' s0 where s': "grid_get (board self) start = Inr (Some p')"
    and v': "CheckersBoard_is_valid_move self p' start end = Inr (True, s0)"
    by (rule CheckersBoard_move_piece_Applied)
  from s' s have "p' = piece" by simp
  with v' have v: "CheckersBoard_is_valid_move self piece start end = Inr (True, s0)" by simp
  from CheckersBoard_move_piece_effect[OF s v]
  obtain gf where gf: "CheckersBoard_move_piece self start end =
                (Applied, s0\<lparr>board := gf, move_history := move_history self @ [board s0]\<rparr>) \<and>
              (\<forall>q. grid_get gf q =
                 (if cell_of (board self) q = cell_of (board self) start then Inr None
                  else if cell_of (board self) q = cell_of (board self) end
                       then Inr (Some (if lands_on_last_rank piece end then promote piece else piece))
                  else grid_get (board s0) q)) \<and>
              cell_of (board self) start \<noteq> cell_of (board self) end \<and>
              count_pieces gf = count_pieces (board s0)" ..
  have bd: "board (snd (CheckersBoard_move_piece self start end)) = gf"
    using gf[THEN conjunct1] by simp
  note get = gf[THEN conjunct2, THEN conjunct1, rule_format, of q]
  have g0: "grid_get (board s0) q =
              (if \<not> is_king piece \<and> \<bar>fst end - fst start\<bar> = 2 \<and>
                  cell_of (board self) q = cell_of (board self) (midpoint start end)
               then Inr None else grid_get (board self) q)"
  proof (cases "\<not> is_king piece \<and> \<bar>fst end - fst start\<bar> = 2")
    case True
    with is_valid_move_True_shape[OF v] obtain jumped g where
      g: "grid_set (board self) (midpoint start end) None = Inr g" and s0: "s0 = self\<lparr>board := g\<rparr>"
      by auto
    from grid_get_set_cell[OF g, of q] s0 True show ?thesis by simp
  next
    case False
    with is_valid_move_True_shape[OF v] have "s0 = self" by auto
    with False show ?thesis by auto
  qed
  show ?thesis
    unfolding bd using get g0 by simp
qed

lemma CheckersBoard_move_piece_shape:
  "snd (CheckersBoard_move_piece self start end) = self \<or>
   (\<exists>g b. snd (CheckersBoard_move_piece self start end) =
           self\<lparr>board := b, move_history := move_history self @ [g]\<rparr> \<and>
         (\<forall>Q. \<not> Q None \<and> (\<forall>p. Q (Some (promote p)) = Q (Some p)) \<longrightarrow>
            count_cells Q b = count_cells Q g \<and> count_cells Q g \<le> count_cells Q (board self)))"
proof (cases "fst (CheckersBoard_move_piece self start end) = Applied")
  case False
  with CheckersBoard_move_piece_cases[of self start "end"] show ?thesis by simp
next
  case True
  then obtain piece s0 where s: "grid_get (board self) start = Inr (Some piece)"
    and v: "CheckersBoard_is_valid_move self piece start end = Inr (True, s0)"
    by (rule CheckersBoard_move_piece_Applied)
  note c0 = is_valid_move_True_cells[OF s v]
  note h = is_valid_move_True(2)[OF v]
  from c0(1) c0(2) obtain g1 g2 where g1: "grid_set (board s0) end (Some piece) = Inr g1"
    and g2: "grid_set g1 start None = Inr g2"
    by (rule move_two_sets)
  let ?gf = "if lands_on_last_rank piece end then promote_at g2 end else g2"
  have m: "CheckersBoard_move_piece self start end =
             (Applied, s0\<lparr>board := ?gf, move_history := move_history self @ [board s0]\<rparr>)"
    using CheckersBoard_move_piece_valid[OF s v g1 g2] h
    by (simp add: lands_on_last_rank_def)
  have bs: "s0\<lparr>board := ?gf, move_history := move_history self @ [board s0]\<rparr> =
            self\<lparr>board := ?gf, move_history := move_history self @ [board s0]\<rparr>"
    using is_valid_move_True(3)[OF v] by auto
  have ne: "cell_of (board s0) start \<noteq> cell_of (board s0) end"
    using cells_differ[OF c0(1) c0(2)] by simp
  have e2: "grid_get g2 end = Inr (Some piece)"
    using two_sets_cells[OF c0(1) g1 g2, of "end"] ne by simp
  have cnt: "\<forall>Q. \<not> Q None \<and> (\<forall>p. Q (Some (promote p)) = Q (Some p)) \<longrightarrow>
            count_cells Q ?gf = count_cells Q (board s0) \<and>
            count_cells Q (board s0) \<le> count_cells Q (board self)"
  proof (intro allI impI)
    fix Q :: "CheckersPiece option \<Rightarrow> bool"
    assume q: "\<not> Q None \<and> (\<forall>p. Q (Some (promote p)) = Q (Some p))"
    then have qn: "\<not> Q None" and qp: "Q (Some (promote piece)) = Q (Some piece)" by simp_all
    have 1: "count_cells Q g2 = count_cells Q (board s0)"
      using two_sets_count[OF c0(1) c0(2) g1 g2, of Q] qn by simp
    have 2: "count_cells Q (promote_at g2 end) = count_cells Q g2"
    proof -
      from e2 obtain g' where s': "grid_set g2 end (Some (promote piece)) = Inr g'"
        and p: "promote_at g2 end = g'"
        by (rule promote_at_occupied)
      from count_cells_set[OF s' e2, of Q] qp p show ?thesis by simp
    qed
    have 3: "count_cells Q (board s0) \<le> count_cells Q (board self)"
    proof (cases "s0 = self")
      case True
      then show ?thesis by simp
    next
      case False
      with is_valid_move_True(3)[OF v] obtain jumped g where
        j: "grid_get (board self) (midpoint start end) = Inr (Some jumped)"
        and g: "grid_set (board self) (midpoint start end) None = Inr g"
        and s0: "s0 = self\<lparr>board := g\<rparr>"
        by blast
      from count_cells_set[OF g j, of Q] qn s0 show ?thesis by simp
    qed
    from 1 2 3 show "count_cells Q ?gf = count_cells Q (board s0) \<and>
            count_cells Q (board s0) \<le> count_cells Q (board self)"
      by simp
  qed
  have "snd (CheckersBoard_move_piece self start end) =
           self\<lparr>board := ?gf, move_history := move_history self @ [board s0]\<rparr>"
    using m bs by simp
  with cnt show ?thesis by blast
qed

lemma value_call_descending:
  assumes Q: "\<not> Q None \<and> (\<forall>p. Q (Some (promote p)) = Q (Some p))"
      and d: "descending (count_cells Q) N s"
  shows "descending (count_cells Q) N (value_call c s)"
proof (cases c)
  case (Move start "end")
  have "descending (count_cells Q) N (snd (CheckersBoard_move_piece s start end))"
    using CheckersBoard_move_piece_shape[of s start "end"]
  proof (elim disjE exE conjE)
    assume "snd (CheckersBoard_move_piece s start end) = s"
    with d show ?thesis by simp
  next
    fix g b
    assume m: "snd (CheckersBoard_move_piece s start end) =
                 s\<lparr>board := b, move_history := move_history s @ [g]\<rparr>"
      and c: "\<forall>Q. \<not> Q None \<and> (\<forall>p. Q (Some (promote p)) = Q (Some p)) \<longrightarrow>
                 count_cells Q b = count_cells Q g \<and> count_cells Q g \<le> count_cells Q (board s)"
    from c[THEN spec, of Q] Q
    have "count_cells Q b = count_cells Q g \<and> count_cells Q g \<le> count_cells Q (board s)"
      by (rule mp)
    then have x: "count_cells Q g \<le> count_cells Q (board s)" and y: "count_cells Q b \<le> count_cells Q g"
      by simp_all
    from descending_push[OF d x y] m show ?thesis by simp
  qed
  with Move show ?thesis by simp
next
  case Undo
  show ?thesis
  proof (cases "move_history s = []")
    case True
    with d Undo show ?thesis by (simp add: CheckersBoard_undo_move_def)
  next
    case False
    from descending_pop(1)[OF d False] False Undo show ?thesis
      by (simp add: CheckersBoard_undo_move_def)
  qed
qed

lemma value_calls_descending:
  assumes Q: "\<not> Q None \<and> (\<forall>p. Q (Some (promote p)) = Q (Some p))"
      and d: "descending (count_cells Q) N s"
  shows "descending (count_cells Q) N (fold value_call calls s)"
  using d
proof (induction calls arbitrary: s)
  case Nil
  then show ?case by simp
next
  case (Cons c calls)
  from value_call_descending[OF Q Cons.prems, of c] Cons.IH[of "value_call c s"]
  show ?case by simp
qed

lemma CheckersBoard_undo_move_descending:
  assumes d: "descending f N s"
  shows "f (board s) \<le> f (board (snd (CheckersBoard_undo_move s)))"
proof (cases "move_history s = []")
  case True
  then show ?thesis by (simp add: CheckersBoard_undo_move_def)
next
  case False
  from descending_pop(2)[OF d False] False show ?thesis
    by (simp add: CheckersBoard_undo_move_def)
qed

lemma ChessBoard_move_piece_cells:
  assumes s: "grid_get (board self) start = Inr (Some piece)"
      and e: "grid_get (board self) end = Inr c"
  shows "grid_get (board (snd (ChessBoard_move_piece self start end))) q =
           (if cell_of (board self) q = cell_of (board self) start then Inr None
            else if cell_of (board self) q = cell_of (board self) end then Inr (Some piece)
            else grid_get (board self) q)"
proof -
  from s e obtain g1 g2 where g1: "grid_set (board self) end (Some piece) = Inr g1"
    and g2: "grid_set g1 start None = Inr g2"
    by (rule move_two_sets)
  have "board (snd (ChessBoard_move_piece self start end)) = g2"
    using ChessBoard_move_piece_occupied[OF s g1 g2] by simp
  with two_sets_cells[OF s g1 g2, of q] show ?thesis by simp
qed

lemma chess_calls_bound:
  assumes P: "\<not> P None" and h: "move_history s = []"
  shows "count_cells P (board (fold chess_call calls s)) \<le> count_cells P (board s)"
    and "count_cells P (board (fold chess_call calls s)) \<le>
           count_cells P (board (snd (ChessBoard_undo_move (fold chess_call calls s))))"
proof -
  have d: "descending (count_cells P) (count_cells P (board s)) (fold chess_call calls s)"
    using P descending_init[OF h, of "count_cells P"] by (rule chess_calls_descending)
  show "count_cells P (board (fold chess_call calls s)) \<le> count_cells P (board s)"
    by (rule descending_bound[OF d])
  show "count_cells P (board (fold chess_call calls s)) \<le>
           count_cells P (board (snd (ChessBoard_undo_move (fold chess_call calls s))))"
    by (rule ChessBoard_undo_move_descending[OF d])
qed

lemma value_calls_bound:
  assumes Q: "\<not> Q None \<and> (\<forall>p. Q (Some (promote p)) = Q (Some p))" and h: "move_history s = []"
  shows "count_cells Q (board (fold value_call calls s)) \<le> count_cells Q (board s)"
    and "count_cells Q (board (fold value_call calls s)) \<le>
           count_cells Q (board (snd (CheckersBoard_undo_move (fold value_call calls s))))"
proof -
  have d: "descending (count_cells Q) (count_cells Q (board s)) (fold value_call calls s)"
    using Q descending_init[OF h, of "count_cells Q"] by (rule value_calls_descending)
  show "count_cells Q (board (fold value_call calls s)) \<le> count_cells Q (board s)"
    by (rule descending_bound[OF d])
  show "count_cells Q (board (fold value_call calls s)) \<le>
           count_cells Q (board (snd (CheckersBoard_undo_move (fold value_call calls s))))"
    by (rule CheckersBoard_undo_move_descending[OF d])
qed

text \<open>
  Claim C8, as the code has it. On the chess and hex-chess boards a move from an
  occupied cell to a cell of the grid is applied; afterwards the start cell is empty, the
  end cell (if it is another cell) holds the moved piece and every other cell holds what
  it held. So the piece that stood on the end cell, if there was one, is gone, and with
  the end cell being the start cell that is the moved piece itself: the number of pieces
  drops by one exactly when the end cell was occupied. On the checkers board an applied
  move removes one piece exactly when it is the two-row move of a man (the jump), and it
  is the piece on the cell midway; apart from the start and the end cell no other cell
  changes. A call of \<open>move_piece\<close> that is not applied leaves the grid as it was, and no
  call, on any board and however it ends, leaves more pieces on the grid than it found.
  After any sequence of \<open>move_piece\<close> and \<open>undo_move\<close> calls on a freshly initialised
  board the grid holds no more pieces than the initial board did, no more of any kind and
  colour of chess piece, no more checkers pieces of either colour, and a further
  \<open>undo_move\<close> does not lower the number of pieces.
\<close>

theorem C8_piece_count:
  "(grid_get (board self) start = Inr (Some piece) \<and> grid_get (board self) end = Inr c \<longrightarrow>
      fst (ChessBoard_move_piece self start end) = Applied \<and>
      count_pieces (board (snd (ChessBoard_move_piece self start end))) +
        (if c = None then 0 else 1) = count_pieces (board self) \<and>
      (\<forall>q. grid_get (board (snd (ChessBoard_move_piece self start end))) q =
            (if cell_of (board self) q = cell_of (board self) start then Inr None
             else if cell_of (board self) q = cell_of (board self) end then Inr (Some piece)
             else grid_get (board self) q)) \<and>
      fst (HexChessBoard_move_piece self start end) = Applied \<and>
      count_pieces (board (snd (HexChessBoard_move_piece self start end))) +
        (if c = None then 0 else 1) = count_pieces (board self) \<and>
      (\<forall>q. grid_get (board (snd (HexChessBoard_move_piece self start end))) q =
            (if cell_of (board self) q = cell_of (board self) start then Inr None
             else if cell_of (board self) q = cell_of (board self) end then Inr (Some piece)
             else grid_get (board self) q))) \<and>
   (fst (ChessBoard_move_piece self start end) \<noteq> Applied \<longrightarrow>
      board (snd (ChessBoard_move_piece self start end)) = board self) \<and>
   (fst (HexChessBoard_move_piece self start end) \<noteq> Applied \<longrightarrow>
      board (snd (HexChessBoard_move_piece self start end)) = board self) \<and>
   (grid_get (board cself) cstart = Inr (Some cpiece) \<and>
    fst (CheckersBoard_move_piece cself cstart cend) = Applied \<longrightarrow>
      count_pieces (board (snd (CheckersBoard_move_piece cself cstart cend))) +
        (if \<not> is_king cpiece \<and> \<bar>fst cend - fst cstart\<bar> = 2 then 1 else 0) =
      count_pieces (board cself) \<and>
      (\<forall>q. grid_get (board (snd (CheckersBoard_move_piece cself cstart cend))) q =
            (if cell_of (board cself) q = cell_of (board cself) cstart then Inr None
             else if cell_of (board cself) q = cell_of (board cself) cend
                  then Inr (Some (if lands_on_last_rank cpiece cend then promote cpiece else cpiece))
             else if \<not> is_king cpiece \<and> \<bar>fst cend - fst cstart\<bar> = 2 \<and>
                     cell_of (board cself) q = cell_of (board cself) (midpoint cstart cend)
                  then Inr None
             else grid_get (board cself) q))) \<and>
   (fst (CheckersBoard_move_piece cself cstart cend) \<noteq> Applied \<longrightarrow>
      snd (CheckersBoard_move_piece cself cstart cend) = cself) \<and>
   count_pieces (board (snd (ChessBoard_move_piece self start end))) \<le> count_pieces (board self) \<and>
   count_pieces (board (snd (HexChessBoard_move_piece self start end))) \<le> count_pieces (board self) \<and>
   count_pieces (board (snd (CheckersBoard_move_piece cself cstart cend))) \<le>
     count_pieces (board cself) \<and>
   count_kind k (board (fold chess_call calls ChessBoard_init)) \<le>
     count_kind k (board ChessBoard_init) \<and>
   count_pieces (board (fold chess_call calls ChessBoard_init)) \<le>
     count_pieces (board ChessBoard_init) \<and>
   count_pieces (board (fold chess_call calls ChessBoard_init)) \<le>
     count_pieces (board (snd (ChessBoard_undo_move (fold chess_call calls ChessBoard_init)))) \<and>
   count_kind k (board (fold hex_call calls HexChessBoard_init)) \<le>
     count_kind k (board HexChessBoard_init) \<and>
   count_pieces (board (fold hex_call calls HexChessBoard_init)) \<le>
     count_pieces (board HexChessBoard_init) \<and>
   count_pieces (board (fold hex_call calls HexChessBoard_init)) \<le>
     count_pieces (board (snd (HexChessBoard_undo_move (fold hex_call calls HexChessBoard_init)))) \<and>
   count_color col (board (fold value_call calls CheckersBoard_init)) \<le>
     count_color col (board CheckersBoard_init) \<and>
   count_pieces (board (fold value_call calls CheckersBoard_init)) \<le>
     count_pieces (board CheckersBoard_init) \<and>
   count_pieces (board (fold value_call calls CheckersBoard_init)) \<le>
     count_pieces (board (snd (CheckersBoard_undo_move (fold value_call calls CheckersBoard_init))))"
proof (intro conjI impI allI)
  assume h: "grid_get (board self) start = Inr (Some piece) \<and> grid_get (board self) end = Inr c"
  then have s: "grid_get (board self) start = Inr (Some piece)"
    and e: "grid_get (board self) end = Inr c" by simp_all
  show "fst (ChessBoard_move_piece self start end) = Applied"
    by (rule ChessBoard_move_piece_count(1)[OF s e])
  then show "fst (HexChessBoard_move_piece self start end) = Applied"
    by (simp add: HexChessBoard_move_piece_eq)
  show "count_pieces (board (snd (ChessBoard_move_piece self start end))) +
        (if c = None then 0 else 1) = count_pieces (board self)"
    by (rule ChessBoard_move_piece_count(2)[OF s e])
  then show "count_pieces (board (snd (HexChessBoard_move_piece self start end))) +
        (if c = None then 0 else 1) = count_pieces (board self)"
    by (simp add: HexChessBoard_move_piece_eq)
  fix q
  show "grid_get (board (snd (ChessBoard_move_piece self start end))) q =
            (if cell_of (board self) q = cell_of (board self) start then Inr None
             else if cell_of (board self) q = cell_of (board self) end then Inr (Some piece)
             else grid_get (board self) q)"
    by (rule ChessBoard_move_piece_cells[OF s e])
  then show "grid_get (board (snd (HexChessBoard_move_piece self start end))) q =
            (if cell_of (board self) q = cell_of (board self) start then Inr None
             else if cell_of (board self) q = cell_of (board self) end then Inr (Some piece)
             else grid_get (board self) q)"
    by (simp add: HexChessBoard_move_piece_eq)
next
  assume "fst (ChessBoard_move_piece self start end) \<noteq> Applied"
  then show "board (snd (ChessBoard_move_piece self start end)) = board self"
    by (rule ChessBoard_move_piece_not_applied)
next
  assume "fst (HexChessBoard_move_piece self start end) \<noteq> Applied"
  then have "fst (ChessBoard_move_piece self start end) \<noteq> Applied"
    by (simp add: HexChessBoard_move_piece_eq)
  then have "board (snd (ChessBoard_move_piece self start end)) = board self"
    by (rule ChessBoard_move_piece_not_applied)
  then show "board (snd (HexChessBoard_move_piece self start end)) = board self"
    by (simp add: HexChessBoard_move_piece_eq)
next
  assume h: "grid_get (board cself) cstart = Inr (Some cpiece) \<and>
    fst (CheckersBoard_move_piece cself cstart cend) = Applied"
  then have s: "grid_get (board cself) cstart = Inr (Some cpiece)"
    and a: "fst (CheckersBoard_move_piece cself cstart cend) = Applied" by simp_all
  show "count_pieces (board (snd (CheckersBoard_move_piece cself cstart cend))) +
        (if \<not> is_king cpiece \<and> \<bar>fst cend - fst cstart\<bar> = 2 then 1 else 0) =
      count_pieces (board cself)"
    by (rule CheckersBoard_move_piece_count[OF s a])
  fix q
  show "grid_get (board (snd (CheckersBoard_move_piece cself cstart cend))) q =
            (if cell_of (board cself) q = cell_of (board cself) cstart then Inr None
             else if cell_of (board cself) q = cell_of (board cself) cend
                  then Inr (Some (if lands_on_last_rank cpiece cend then promote cpiece else cpiece))
             else if \<not> is_king cpiece \<and> \<bar>fst cend - fst cstart\<bar> = 2 \<and>
                     cell_of (board cself) q = cell_of (board cself) (midpoint cstart cend)
                  then Inr None
             else grid_get (board cself) q)"
    by (rule CheckersBoard_move_piece_cells[OF s a])
next
  assume "fst (CheckersBoard_move_piece cself cstart cend) \<noteq> Applied"
  with CheckersBoard_move_piece_cases[of cself cstart cend]
  show "snd (CheckersBoard_move_piece cself cstart cend) = cself" by simp
next
  show "count_pieces (board (snd (ChessBoard_move_piece self start end))) \<le> count_pieces (board self)"
    by (rule ChessBoard_move_piece_never_adds)
  then show "count_pieces (board (snd (HexChessBoard_move_piece self start end))) \<le> count_pieces (board self)"
    by (simp add: HexChessBoard_move_piece_eq)
  show "count_pieces (board (snd (CheckersBoard_move_piece cself cstart cend))) \<le>
     count_pieces (board cself)"
    by (rule CheckersBoard_move_piece_never_adds)
next
  have hc: "move_history ChessBoard_init = []" by (simp add: ChessBoard_init_def)
  have hh: "move_history HexChessBoard_init = []" by (simp add: HexChessBoard_init_def)
  have hk: "move_history CheckersBoard_init = []" by (simp add: CheckersBoard_init_def)
  show "count_kind k (board (fold chess_call calls ChessBoard_init)) \<le>
     count_kind k (board ChessBoard_init)"
    using chess_calls_bound(1)[where P = "\<lambda>c. c = Some k" and s = ChessBoard_init and calls = calls] hc
    by (simp add: count_kind_def)
  show "count_pieces (board (fold chess_call calls ChessBoard_init)) \<le>
     count_pieces (board ChessBoard_init)"
    using chess_calls_bound(1)[where P = "\<lambda>c. c \<noteq> None" and s = ChessBoard_init and calls = calls] hc
    by (simp add: count_pieces_cells)
  show "count_pieces (board (fold chess_call calls ChessBoard_init)) \<le>
     count_pieces (board (snd (ChessBoard_undo_move (fold chess_call calls ChessBoard_init))))"
    using chess_calls_bound(2)[where P = "\<lambda>c. c \<noteq> None" and s = ChessBoard_init and calls = calls] hc
    by (simp add: count_pieces_cells)
  show "count_kind k (board (fold hex_call calls HexChessBoard_init)) \<le>
     count_kind k (board HexChessBoard_init)"
    using chess_calls_bound(1)[where P = "\<lambda>c. c = Some k" and s = HexChessBoard_init and calls = calls] hh
    by (simp add: count_kind_def hex_calls_eq)
  show "count_pieces (board (fold hex_call calls HexChessBoard_init)) \<le>
     count_pieces (board HexChessBoard_init)"
    using chess_calls_bound(1)[where P = "\<lambda>c. c \<noteq> None" and s = HexChessBoard_init and calls = calls] hh
    by (simp add: count_pieces_cells hex_calls_eq)
  show "count_pieces (board (fold hex_call calls HexChessBoard_init)) \<le>
     count_pieces (board (snd (HexChessBoard_undo_move (fold hex_call calls HexChessBoard_init))))"
    using chess_calls_bound(2)[where P = "\<lambda>c. c \<noteq> None" and s = HexChessBoard_init and calls = calls] hh
    by (simp add: count_pieces_cells hex_calls_eq HexChessBoard_undo_move_eq)
  show "count_color col (board (fold value_call calls CheckersBoard_init)) \<le>
     count_color col (board CheckersBoard_init)"
    using value_calls_bound(1)[where Q = "\<lambda>c. case c of None \<Rightarrow> False | Some p \<Rightarrow> color p = col"
                                 and s = CheckersBoard_init and calls = calls] hk
    by (simp add: count_color_def promote_def)
  show "count_pieces (board (fold value_call calls CheckersBoard_init)) \<le>
     count_pieces (board CheckersBoard_init)"
    using value_calls_bound(1)[where Q = "\<lambda>c. c \<noteq> None" and s = CheckersBoard_init and calls = calls] hk
    by (simp add: count_pieces_cells)
  show "count_pieces (board (fold value_call calls CheckersBoard_init)) \<le>
     count_pieces (board (snd (CheckersBoard_undo_move (fold value_call calls CheckersBoard_init))))"
    using value_calls_bound(2)[where Q = "\<lambda>c. c \<noteq> None" and s = CheckersBoard_init and calls = calls] hk
    by (simp add: count_pieces_cells)
qed

theorem C8_piece_count_witness:
  "grid_get (board ChessBoard_init) (6, 4) = Inr (Some (Pawn White)) \<and>
   grid_get (board ChessBoard_init) (1, 4) = Inr (Some (Pawn Black)) \<and>
   fst (ChessBoard_move_piece ChessBoard_init (6, 4) (1, 4)) = Applied \<and>
   count_pieces (board (snd (ChessBoard_move_piece ChessBoard_init (6, 4) (1, 4)))) + 1 =
     count_pieces (board ChessBoard_init) \<and>
   grid_get (board (snd (ChessBoard_move_piece ChessBoard_init (6, 4) (1, 4)))) (1, 4) =
     Inr (Some (Pawn White)) \<and>
   grid_get (board (snd (ChessBoard_move_piece ChessBoard_init (6, 4) (1, 4)))) (6, 4) = Inr None \<and>
   fst (ChessBoard_move_piece ChessBoard_init (6, 4) (9, 9)) = Raised IndexError \<and>
   board (snd (ChessBoard_move_piece ChessBoard_init (6, 4) (9, 9))) = board ChessBoard_init \<and>
   fst (HexChessBoard_move_piece ChessBoard_init (6, 4) (9, 9)) = Raised IndexError \<and>
   board (snd (HexChessBoard_move_piece ChessBoard_init (6, 4) (9, 9))) = board ChessBoard_init \<and>
   grid_get (board jump_example) (5, 2) = Inr (Some (new_CheckersPiece White)) \<and>
   fst (CheckersBoard_move_piece jump_example (5, 2) (3, 4)) = Applied \<and>
   count_pieces (board (snd (CheckersBoard_move_piece jump_example (5, 2) (3, 4)))) + 1 =
     count_pieces (board jump_example) \<and>
   grid_get (board (snd (CheckersBoard_move_piece jump_example (5, 2) (3, 4)))) (4, 3) = Inr None \<and>
   fst (CheckersBoard_move_piece jump_example (5, 2) (3, 0)) = Rejected \<and>
   snd (CheckersBoard_move_piece jump_example (5, 2) (3, 0)) = jump_example"
proof -
  note t1 = C8_piece_count[where self = ChessBoard_init and start = "(6, 4)"
      and piece = "Pawn White" and ?end = "(1, 4)" and c = "Some (Pawn Black)"
      and cself = jump_example and cstart = "(5, 2)" and cpiece = "new_CheckersPiece White"
      and cend = "(3, 4)" and k = "Pawn White" and calls = "[]" and col = White]
  note t2 = C8_piece_count[where self = ChessBoard_init and start = "(6, 4)"
      and piece = "Pawn White" and ?end = "(9, 9)" and c = None
      and cself = jump_example and cstart = "(5, 2)" and cpiece = "new_CheckersPiece White"
      and cend = "(3, 0)" and k = "Pawn White" and calls = "[]" and col = White]
  have a: "grid_get (board ChessBoard_init) (6, 4) = Inr (Some (Pawn White))" by code_simp
  have b: "grid_get (board ChessBoard_init) (1, 4) = Inr (Some (Pawn Black))" by code_simp
  have ca: "cell_of (board ChessBoard_init) (6, 4) = Some (6, 4)" by code_simp
  have cb: "cell_of (board ChessBoard_init) (1, 4) = Some (1, 4)" by code_simp
  from t1[THEN conjunct1] a b
  have A: "fst (ChessBoard_move_piece ChessBoard_init (6, 4) (1, 4)) = Applied \<and>
      count_pieces (board (snd (ChessBoard_move_piece ChessBoard_init (6, 4) (1, 4)))) +
        (if Some (Pawn Black) = None then 0 else 1) = count_pieces (board ChessBoard_init) \<and>
      (\<forall>q. grid_get (board (snd (ChessBoard_move_piece ChessBoard_init (6, 4) (1, 4)))) q =
            (if cell_of (board ChessBoard_init) q = cell_of (board ChessBoard_init) (6, 4) then Inr None
             else if cell_of (board ChessBoard_init) q = cell_of (board ChessBoard_init) (1, 4)
                  then Inr (Some (Pawn White))
             else grid_get (board ChessBoard_init) q))"
    by blast
  have 1: "fst (ChessBoard_move_piece ChessBoard_init (6, 4) (1, 4)) = Applied"
    using A by blast
  have 2: "count_pieces (board (snd (ChessBoard_move_piece ChessBoard_init (6, 4) (1, 4)))) + 1 =
     count_pieces (board ChessBoard_init)"
    using A by simp
  have 3: "grid_get (board (snd (ChessBoard_move_piece ChessBoard_init (6, 4) (1, 4)))) (1, 4) =
     Inr (Some (Pawn White))"
    using A[THEN conjunct2, THEN conjunct2, rule_format, of "(1, 4)"] by (simp add: ca cb)
  have 4: "grid_get (board (snd (ChessBoard_move_piece ChessBoard_init (6, 4) (1, 4)))) (6, 4) = Inr None"
    using A[THEN conjunct2, THEN conjunct2, rule_format, of "(6, 4)"] by simp
  have r: "fst (ChessBoard_move_piece ChessBoard_init (6, 4) (9, 9)) = Raised IndexError"
    by code_simp
  then have r': "fst (HexChessBoard_move_piece ChessBoard_init (6, 4) (9, 9)) = Raised IndexError"
    by (simp add: HexChessBoard_move_piece_eq)
  have 5: "board (snd (ChessBoard_move_piece ChessBoard_init (6, 4) (9, 9))) = board ChessBoard_init"
    using t2[THEN conjunct2, THEN conjunct1] r by simp
  have 6: "board (snd (HexChessBoard_move_piece ChessBoard_init (6, 4) (9, 9))) = board ChessBoard_init"
    using t2[THEN conjunct2, THEN conjunct2, THEN conjunct1] r' by simp
  have d: "grid_get (board jump_example) (5, 2) = Inr (Some (new_CheckersPiece White))"
    by code_simp
  have e: "fst (CheckersBoard_move_piece jump_example (5, 2) (3, 4)) = Applied"
    by code_simp
  have f: "\<not> is_king (new_CheckersPiece White)"
    by (simp add: new_CheckersPiece_def)
  have m: "midpoint (5, 2) (3, 4) = (4, 3)"
    by (simp add: midpoint_def)
  have cs: "cell_of (board jump_example) (5, 2) = Some (5, 2)" by code_simp
  have ce: "cell_of (board jump_example) (3, 4) = Some (3, 4)" by code_simp
  have cm: "cell_of (board jump_example) (4, 3) = Some (4, 3)" by code_simp
  from t1[THEN conjunct2, THEN conjunct2, THEN conjunct2, THEN conjunct1] d e
  have C: "count_pieces (board (snd (CheckersBoard_move_piece jump_example (5, 2) (3, 4)))) +
        (if \<not> is_king (new_CheckersPiece White) \<and> \<bar>fst (3::int, 4::int) - fst (5::int, 2::int)\<bar> = 2
         then 1 else 0) =
      count_pieces (board jump_example) \<and>
      (\<forall>q. grid_get (board (snd (CheckersBoard_move_piece jump_example (5, 2) (3, 4)))) q =
            (if cell_of (board jump_example) q = cell_of (board jump_example) (5, 2) then Inr None
             else if cell_of (board jump_example) q = cell_of (board jump_example) (3, 4)
                  then Inr (Some (if lands_on_last_rank (new_CheckersPiece White) (3, 4)
                                  then promote (new_CheckersPiece White)
                                  else new_CheckersPiece White))
             else if \<not> is_king (new_CheckersPiece White) \<and>
                     \<bar>fst (3::int, 4::int) - fst (5::int, 2::int)\<bar> = 2 \<and>
                     cell_of (board jump_example) q =
                       cell_of (board jump_example) (midpoint (5, 2) (3, 4))
                  then Inr None
             else grid_get (board jump_example) q))"
    by blast
  have 7: "count_pieces (board (snd (CheckersBoard_move_piece jump_example (5, 2) (3, 4)))) + 1 =
     count_pieces (board jump_example)"
    using C[THEN conjunct1] f by simp
  have 8: "grid_get (board (snd (CheckersBoard_move_piece jump_example (5, 2) (3, 4)))) (4, 3) = Inr None"
    using C[THEN conjunct2, rule_format, of "(4, 3)"] f by (simp add: m cs ce cm)
  have j: "fst (CheckersBoard_move_piece jump_example (5, 2) (3, 0)) = Rejected"
    by code_simp
  have 9: "snd (CheckersBoard_move_piece jump_example (5, 2) (3, 0)) = jump_example"
    using t2[THEN conjunct2, THEN conjunct2, THEN conjunct2, THEN conjunct2, THEN conjunct1] j
    by simp
  from a b 1 2 3 4 r 5 r' 6 d e 7 8 j 9 show ?thesis by (intro conjI)
qed

text \<open>
  Against claim C8 as stated: on the initial chess board the move of the white pawn
  from (6,4) onto the black pawn on (1,4) is applied and leaves 31 of the 32 pieces, and
  so does its move from (6,4) to (6,4).
\<close>

theorem C8_chess_capture_counterexample:
  "count_pieces (board ChessBoard_init) = 32 \<and>
   fst (ChessBoard_move_piece ChessBoard_init (6, 4) (1, 4)) = Applied \<and>
   count_pieces (board (snd (ChessBoard_move_piece ChessBoard_init (6, 4) (1, 4)))) = 31 \<and>
   fst (ChessBoard_move_piece ChessBoard_init (6, 4) (6, 4)) = Applied \<and>
   count_pieces (board (snd (ChessBoard_move_piece ChessBoard_init (6, 4) (6, 4)))) = 31"
  by code_simp

section \<open>Snapshots and undo\<close>

text \<open>
  On the chess and hex-chess boards the snapshot is taken before anything is written:
  one \<open>undo_move\<close> after an applied move gives back the board of before the call.
\<close>

lemma ChessBoard_undo_after_move:
  assumes "fst (ChessBoard_move_piece self start end) = Applied"
  shows "move_history (snd (ChessBoard_move_piece self start end)) = move_history self @ [board self]"
    and "snd (ChessBoard_undo_move (snd (ChessBoard_move_piece self start end))) = self"
  using assms
  by (auto simp: ChessBoard_move_piece_def ChessBoard_undo_move_def Let_def deepcopy_def
           split: sum.splits option.splits if_splits)

text \<open>
  Claim C1 fails on the checkers board. \<open>is_valid_move\<close> clears the jumped cell before
  \<open>move_piece\<close> takes its snapshot, so the snapshot of a capturing move lacks the
  captured piece. In the position after c3-d4 and f6-e5 the jump d4-f6 is applied; the
  snapshot it pushes differs from the grid of before the call, and the grid that
  \<open>undo_move\<close> restores has no piece on (3,4), where the black man stood.
\<close>

theorem C1_capture_lost_by_undo:
  "grid_get (board capture_position) (3, 4) = Inr (Some (new_CheckersPiece Black)) \<and>
   fst (CheckersBoard_move_piece capture_position (4, 3) (2, 5)) = Applied \<and>
   last (move_history (snd (CheckersBoard_move_piece capture_position (4, 3) (2, 5)))) \<noteq>
     board capture_position \<and>
   board (snd (CheckersBoard_undo_move
                 (snd (CheckersBoard_move_piece capture_position (4, 3) (2, 5))))) \<noteq>
     board capture_position \<and>
   grid_get (board (snd (CheckersBoard_undo_move
                 (snd (CheckersBoard_move_piece capture_position (4, 3) (2, 5)))))) (3, 4) =
     Inr None"
  by code_simp

section \<open>The game loops\<close>

lemma ChessGame_play_step_move:
  assumes "lower start \<noteq> ''undo''" and "lower end \<noteq> ''undo''"
      and "ChessGame_coords start = Inr p1" and "ChessGame_coords end = Inr p2"
      and "fst (ChessBoard_move_piece (chess_board self) p1 p2) = Applied \<or>
           fst (ChessBoard_move_piece (chess_board self) p1 p2) = Rejected"
  shows "ChessGame_play_step self start end =
           self\<lparr>chess_board := snd (ChessBoard_move_piece (chess_board self) p1 p2),
                turn := (if turn self = White then Black else White),
                move_count := move_count self + 1\<rparr>"
proof -
  obtain outcome b where m: "ChessBoard_move_piece (chess_board self) p1 p2 = (outcome, b)"
    by (cases "ChessBoard_move_piece (chess_board self) p1 p2")
  with assms(5) have "outcome = Applied \<or> outcome = Rejected" by simp
  then show ?thesis
    using assms(1-4) m
    by (auto simp: ChessGame_play_step_def ChessGame_switch_turn_def Let_def)
qed

lemma HexChessGame_play_step_move:
  assumes "lower start \<noteq> ''undo''" and "lower end \<noteq> ''undo''"
      and "HexChessGame_convert_to_coords start = Inr p1"
      and "HexChessGame_convert_to_coords end = Inr p2"
      and "fst (HexChessBoard_move_piece (hex_board self) p1 p2) = Applied \<or>
           fst (HexChessBoard_move_piece (hex_board self) p1 p2) = Rejected"
  shows "HexChessGame_play_step self start end =
           self\<lparr>hex_board := snd (HexChessBoard_move_piece (hex_board self) p1 p2),
                turn_index := (turn_index self + 1) mod 2,
                hex_move_count := hex_move_count self + 1\<rparr>"
proof -
  obtain outcome b where m: "HexChessBoard_move_piece (hex_board self) p1 p2 = (outcome, b)"
    by (cases "HexChessBoard_move_piece (hex_board self) p1 p2")
  with assms(5) have "outcome = Applied \<or> outcome = Rejected" by simp
  then show ?thesis
    using assms(1-4) m
    by (auto simp: HexChessGame_play_step_def HexChessGame_switch_turn_def Let_def)
qed

text \<open>
  Claim C2, as the code has it. A round of \<open>play\<close> whose two inputs are not the undo
  keyword, whose coordinates parse, and whose call of \<open>move_piece\<close> returns without an
  exception switches the turn and adds one to \<open>move_count\<close>, whether the board applied
  the move or rejected it.
\<close>

theorem C2_move_count:
  "(lower start \<noteq> ''undo'' \<and> lower end \<noteq> ''undo'' \<and>
    ChessGame_coords start = Inr p1 \<and> ChessGame_coords end = Inr p2 \<and>
    (fst (ChessBoard_move_piece (chess_board game) p1 p2) = Applied \<or>
     fst (ChessBoard_move_piece (chess_board game) p1 p2) = Rejected) \<longrightarrow>
      ChessGame_play_step game start end =
        game\<lparr>chess_board := snd (ChessBoard_move_piece (chess_board game) p1 p2),
             turn := (if turn game = White then Black else White),
             move_count := move_count game + 1\<rparr>) \<and>
   (lower start \<noteq> ''undo'' \<and> lower end \<noteq> ''undo'' \<and>
    HexChessGame_convert_to_coords start = Inr h1 \<and>
    HexChessGame_convert_to_coords end = Inr h2 \<and>
    (fst (HexChessBoard_move_piece (hex_board hgame) h1 h2) = Applied \<or>
     fst (HexChessBoard_move_piece (hex_board hgame) h1 h2) = Rejected) \<longrightarrow>
      HexChessGame_play_step hgame start end =
        hgame\<lparr>hex_board := snd (HexChessBoard_move_piece (hex_board hgame) h1 h2),
              turn_index := (turn_index hgame + 1) mod 2,
              hex_move_count := hex_move_count hgame + 1\<rparr>)"
  using ChessGame_play_step_move[of start "end" p1 p2 game]
        HexChessGame_play_step_move[of start "end" h1 h2 hgame]
  by blast

theorem C2_move_count_witness:
  "fst (ChessBoard_move_piece (chess_board ChessGame_init) (4, 4) (3, 4)) = Rejected \<and>
   move_count (ChessGame_play_step ChessGame_init ''e4'' ''e5'') = move_count ChessGame_init + 1 \<and>
   turn (ChessGame_play_step ChessGame_init ''e4'' ''e5'') = Black \<and>
   fst (HexChessBoard_move_piece (hex_board HexChessGame_init) (9, 5) (7, 5)) = Applied \<and>
   hex_move_count (HexChessGame_play_step HexChessGame_init ''e2'' ''e4'') =
     hex_move_count HexChessGame_init + 1 \<and>
   turn_index (HexChessGame_play_step HexChessGame_init ''e2'' ''e4'') = 1"
proof -
  have u: "lower ''e4'' \<noteq> ''undo''" "lower ''e5'' \<noteq> ''undo''" "lower ''e2'' \<noteq> ''undo''"
    by code_simp+
  have c: "ChessGame_coords ''e4'' = Inr (4, 4)" "ChessGame_coords ''e5'' = Inr (3, 4)"
    by code_simp+
  have h: "HexChessGame_convert_to_coords ''e2'' = Inr (9, 5)"
    "HexChessGame_convert_to_coords ''e4'' = Inr (7, 5)"
    by code_simp+
  have r: "fst (ChessBoard_move_piece (chess_board ChessGame_init) (4, 4) (3, 4)) = Rejected"
    by code_simp
  have a: "fst (HexChessBoard_move_piece (hex_board HexChessGame_init) (9, 5) (7, 5)) = Applied"
    by code_simp
  have t: "turn ChessGame_init = White" "turn_index HexChessGame_init = 0"
    by (simp_all add: ChessGame_init_def HexChessGame_init_def)
  from C2_move_count[of "''e4''" "''e5''" "(4, 4)" "(3, 4)" ChessGame_init "(0, 0)" "(0, 0)" HexChessGame_init]
       u c r
  have 1: "ChessGame_play_step ChessGame_init ''e4'' ''e5'' =
        ChessGame_init\<lparr>chess_board := snd (ChessBoard_move_piece (chess_board ChessGame_init) (4, 4) (3, 4)),
             turn := (if turn ChessGame_init = White then Black else White),
             move_count := move_count ChessGame_init + 1\<rparr>"
    by blast
  from C2_move_count[of "''e2''" "''e4''" "(0, 0)" "(0, 0)" ChessGame_init "(9, 5)" "(7, 5)" HexChessGame_init]
       u h a
  have 2: "HexChessGame_play_step HexChessGame_init ''e2'' ''e4'' =
        HexChessGame_init\<lparr>hex_board := snd (HexChessBoard_move_piece (hex_board HexChessGame_init) (9, 5) (7, 5)),
              turn_index := (turn_index HexChessGame_init + 1) mod 2,
              hex_move_count := hex_move_count HexChessGame_init + 1\<rparr>"
    by blast
  from 1 2 r a t show ?thesis by simp
qed

text \<open>
  Against claim C2 as stated: on the initial chess board the inputs \<open>e4\<close> and \<open>e5\<close> name
  an empty start cell, the move is rejected, the turn passes to black, and \<open>move_count\<close>
  goes from 0 to 1.
\<close>

theorem C2_rejected_move_counted_counterexample:
  "ChessGame_coords ''e4'' = Inr (4, 4) \<and> ChessGame_coords ''e5'' = Inr (3, 4) \<and>
   grid_get (board (chess_board ChessGame_init)) (4, 4) = Inr None \<and>
   fst (ChessBoard_move_piece (chess_board ChessGame_init) (4, 4) (3, 4)) = Rejected \<and>
   turn (ChessGame_play_step ChessGame_init ''e4'' ''e5'') = Black \<and>
   move_count ChessGame_init = 0 \<and>
   move_count (ChessGame_play_step ChessGame_init ''e4'' ''e5'') = 1"
  by code_simp

section \<open>Promotion\<close>

lemma CheckersBoard_move_piece_promotes:
  assumes "grid_get (board self) start = Inr (Some piece)"
      and "fst (CheckersBoard_move_piece self start end) = Applied"
      and "lands_on_last_rank piece end"
  shows "grid_get (board (snd (CheckersBoard_move_piece self start end))) end =
              Inr (Some (piece\<lparr>is_king := True\<rparr>))"
  using CheckersBoard_moved_piece[OF assms(1,2)] assms(3) by simp

lemma deepcopy_cell_extends:
  assumes "deepcopy_cell (memo, h) x = (y, memo', h')"
  shows "\<exists>ext. h' = h @ ext"
  using assms by (cases x) (auto split: option.splits)

lemma deepcopy_row_extends:
  assumes "deepcopy_row (memo, h) xs = (ys, memo', h')"
  shows "\<exists>ext. h' = h @ ext"
  using assms
proof (induction xs arbitrary: memo h ys memo' h')
  case Nil
  then show ?case by simp
next
  case (Cons x xs)
  obtain y m1 h1 where c: "deepcopy_cell (memo, h) x = (y, m1, h1)"
    by (cases "deepcopy_cell (memo, h) x") auto
  obtain ys' m2 h2 where r: "deepcopy_row (m1, h1) xs = (ys', m2, h2)"
    by (cases "deepcopy_row (m1, h1) xs") auto
  from Cons.prems c r have "h' = h2" by simp
  moreover from deepcopy_cell_extends[OF c] obtain e1 where "h1 = h @ e1" by blast
  moreover from Cons.IH[OF r] obtain e2 where "h2 = h1 @ e2" by blast
  ultimately show ?case by simp
qed

lemma deepcopy_rows_extends:
  assumes "deepcopy_rows (memo, h) g = (g', memo', h')"
  shows "\<exists>ext. h' = h @ ext"
  using assms
proof (induction g arbitrary: memo h g' memo' h')
  case Nil
  then show ?case by simp
next
  case (Cons row rows)
  obtain row' m1 h1 where c: "deepcopy_row (memo, h) row = (row', m1, h1)"
    by (cases "deepcopy_row (memo, h) row") auto
  obtain rows' m2 h2 where r: "deepcopy_rows (m1, h1) rows = (rows', m2, h2)"
    by (cases "deepcopy_rows (m1, h1) rows") auto
  from Cons.prems c r have "h' = h2" by simp
  moreover from deepcopy_row_extends[OF c] obtain e1 where "h1 = h @ e1" by blast
  moreover from Cons.IH[OF r] obtain e2 where "h2 = h1 @ e2" by blast
  ultimately show ?case by simp
qed

lemma obj_deepcopy_extends:
  assumes "obj_deepcopy h g = (g', h')"
  shows "\<exists>ext. h' = h @ ext"
proof -
  obtain g2 m2 h2 where r: "deepcopy_rows ([], h) g = (g2, m2, h2)"
    by (cases "deepcopy_rows ([], h) g") auto
  with assms have "h' = h2" by (simp add: obj_deepcopy_def)
  with deepcopy_rows_extends[OF r] show ?thesis by simp
qed

lemma never_demoted_refl: "never_demoted h h"
  by (simp add: never_demoted_def)

lemma never_demoted_append: "never_demoted h (h @ ext)"
  by (simp add: never_demoted_def nth_append)

lemma never_demoted_promote: "never_demoted h ((h @ ext)[a := promote ((h @ ext) ! a)])"
  by (auto simp: never_demoted_def nth_append nth_list_update promote_def)

lemma obj_is_valid_move_objects:
  assumes "obj_is_valid_move self piece start end = Inr (ok, s0)"
  shows "objects s0 = objects self" and "obj_move_history s0 = obj_move_history self"
  using assms
  by (auto simp: obj_is_valid_move_def Let_def split: sum.splits option.splits if_splits)

lemma obj_is_valid_move_True:
  assumes v: "obj_is_valid_move self piece start end = Inr (True, s0)"
  shows "grid_get (obj_board self) end = Inr None"
    and "s0 = self \<or>
         (\<exists>jumped g. grid_get (obj_board self) (midpoint start end) = Inr (Some jumped) \<and>
            color (objects self ! jumped) \<noteq> color (objects self ! piece) \<and>
            grid_set (obj_board self) (midpoint start end) None = Inr g \<and>
            s0 = self\<lparr>obj_board := g\<rparr>)"
  using v
  by (auto simp: obj_is_valid_move_def Let_def midpoint_def
           split: sum.splits option.splits if_splits)

lemma obj_is_valid_move_True_cells:
  assumes s: "grid_get (obj_board self) start = Inr (Some piece)"
      and v: "obj_is_valid_move self piece start end = Inr (True, s0)"
  shows "grid_get (obj_board s0) start = Inr (Some piece) \<and>
         grid_get (obj_board s0) end = Inr None"
proof -
  note e = obj_is_valid_move_True(1)[OF v]
  from obj_is_valid_move_True(2)[OF v]
  consider "s0 = self"
    | jumped g where "grid_get (obj_board self) (midpoint start end) = Inr (Some jumped)"
        "color (objects self ! jumped) \<noteq> color (objects self ! piece)"
        "grid_set (obj_board self) (midpoint start end) None = Inr g"
        "s0 = self\<lparr>obj_board := g\<rparr>"
    by blast
  then show ?thesis
  proof cases
    case 1
    with s e show ?thesis by simp
  next
    case 2
    from 2(2) have "jumped \<noteq> piece" by auto
    then have ms: "cell_of (obj_board self) start \<noteq> cell_of (obj_board self) (midpoint start end)"
      using cells_differ[OF s 2(1)] by simp
    have me: "cell_of (obj_board self) end \<noteq> cell_of (obj_board self) (midpoint start end)"
      using cells_differ[OF e 2(1)] by simp
    show ?thesis
      using grid_get_set_cell[OF 2(3)] ms me s e 2(4) by simp
  qed
qed

lemma obj_move_piece_Applied:
  assumes "fst (obj_move_piece self start end) = Applied"
  obtains piece s0 where "grid_get (obj_board self) start = Inr (Some piece)"
    and "obj_is_valid_move self piece start end = Inr (True, s0)"
  using assms
  by (auto simp: obj_move_piece_def Let_def
           split: sum.splits option.splits bool.splits prod.splits if_splits)

lemma obj_move_piece_valid:
  assumes "grid_get (obj_board self) start = Inr (Some piece)"
      and "obj_is_valid_move self piece start end = Inr (True, s0)"
      and "obj_deepcopy (objects s0) (obj_board s0) = (snapshot, h)"
      and "grid_set (obj_board s0) end (Some piece) = Inr g1"
      and "grid_set g1 start None = Inr g2"
  shows "obj_move_piece self start end =
           (Applied,
            s0\<lparr>objects := (if lands_on_last_rank (h ! piece) end
                            then h[piece := promote (h ! piece)] else h),
               obj_board := g2,
               obj_move_history := obj_move_history s0 @ [snapshot]\<rparr>)"
  using assms
  by (auto simp: obj_move_piece_def Let_def lands_on_last_rank_def)

lemma obj_move_piece_effect:
  assumes s: "grid_get (obj_board self) start = Inr (Some piece)"
      and v: "obj_is_valid_move self piece start end = Inr (True, s0)"
  shows "\<exists>snapshot ext g2.
           obj_move_piece self start end =
             (Applied,
              s0\<lparr>objects := (if lands_on_last_rank ((objects self @ ext) ! piece) end
                              then (objects self @ ext)[piece := promote ((objects self @ ext) ! piece)]
                              else objects self @ ext),
                 obj_board := g2,
                 obj_move_history := obj_move_history self @ [snapshot]\<rparr>) \<and>
           grid_get g2 end = Inr (Some piece)"
proof -
  from obj_is_valid_move_True_cells[OF s v]
  have s0s: "grid_get (obj_board s0) start = Inr (Some piece)"
    and s0e: "grid_get (obj_board s0) end = Inr None" by simp_all
  from move_cells[OF s0s s0e]
  obtain g1 g2 where g1: "grid_set (obj_board s0) end (Some piece) = Inr g1"
    and g2: "grid_set g1 start None = Inr g2"
    and get2: "\<forall>q. grid_get g2 q =
            (if cell_of (obj_board s0) q = cell_of (obj_board s0) start then Inr None
             else if cell_of (obj_board s0) q = cell_of (obj_board s0) end then Inr (Some piece)
             else grid_get (obj_board s0) q)"
    and ne: "cell_of (obj_board s0) start \<noteq> cell_of (obj_board s0) end"
    by blast
  have e2: "grid_get g2 end = Inr (Some piece)"
    using get2[rule_format, of "end"] ne by simp
  obtain snapshot h where d: "obj_deepcopy (objects s0) (obj_board s0) = (snapshot, h)"
    by (cases "obj_deepcopy (objects s0) (obj_board s0)")
  from obj_deepcopy_extends[OF d] obtain ext where h: "h = objects s0 @ ext" by blast
  note o = obj_is_valid_move_objects[OF v]
  from obj_move_piece_valid[OF s v d g1 g2] h o e2 show ?thesis
    by auto
qed

lemma obj_move_piece_cases:
  "fst (obj_move_piece self start end) = Applied \<or> snd (obj_move_piece self start end) = self"
proof (cases "grid_get (obj_board self) start")
  case (Inl e)
  then show ?thesis by (simp add: obj_move_piece_def)
next
  case (Inr c)
  show ?thesis
  proof (cases c)
    case None
    with Inr show ?thesis by (simp add: obj_move_piece_def)
  next
    case (Some piece)
    with Inr have s: "grid_get (obj_board self) start = Inr (Some piece)" by simp
    show ?thesis
    proof (cases "obj_is_valid_move self piece start end")
      case (Inl e)
      with s show ?thesis by (simp add: obj_move_piece_def)
    next
      case (Inr r)
      obtain ok s0 where r: "r = (ok, s0)" by (cases r)
      show ?thesis
      proof (cases ok)
        case True
        with Inr r have v: "obj_is_valid_move self piece start end = Inr (True, s0)"
          by simp
        from obj_move_piece_effect[OF s v] show ?thesis by auto
      next
        case False
        with Inr r have v: "obj_is_valid_move self piece start end = Inr (False, s0)"
          by simp
        then have "s0 = self"
          by (auto simp: obj_is_valid_move_def Let_def split: sum.splits option.splits if_splits)
        with s v show ?thesis by (simp add: obj_move_piece_def)
      qed
    qed
  qed
qed

lemma obj_move_piece_never_demotes:
  "never_demoted (objects self) (objects (snd (obj_move_piece self start end)))"
proof (cases "fst (obj_move_piece self start end) = Applied")
  case True
  then obtain piece s0 where s: "grid_get (obj_board self) start = Inr (Some piece)"
    and v: "obj_is_valid_move self piece start end = Inr (True, s0)"
    by (rule obj_move_piece_Applied)
  from obj_move_piece_effect[OF s v] obtain snapshot ext g2 where
    "obj_move_piece self start end =
             (Applied,
              s0\<lparr>objects := (if lands_on_last_rank ((objects self @ ext) ! piece) end
                              then (objects self @ ext)[piece := promote ((objects self @ ext) ! piece)]
                              else objects self @ ext),
                 obj_board := g2,
                 obj_move_history := obj_move_history self @ [snapshot]\<rparr>)"
    by blast
  then show ?thesis
    by (simp add: never_demoted_append never_demoted_promote)
next
  case False
  with obj_move_piece_cases[of self start "end"] show ?thesis
    by (simp add: never_demoted_refl)
qed

lemma obj_move_piece_promotes:
  "(grid_get (obj_board self) start = Inr (Some piece) \<and> piece < length (objects self) \<and>
    fst (obj_move_piece self start end) = Applied \<and>
    lands_on_last_rank (objects self ! piece) end \<longrightarrow>
      grid_get (obj_board (snd (obj_move_piece self start end))) end = Inr (Some piece) \<and>
      is_king (objects (snd (obj_move_piece self start end)) ! piece)) \<and>
   never_demoted (objects self) (objects (snd (obj_move_piece self start end))) \<and>
   never_demoted (objects self) (objects (snd (obj_undo_move self)))"
proof (intro conjI impI)
  assume h: "grid_get (obj_board self) start = Inr (Some piece) \<and> piece < length (objects self) \<and>
    fst (obj_move_piece self start end) = Applied \<and>
    lands_on_last_rank (objects self ! piece) end"
  then have s: "grid_get (obj_board self) start = Inr (Some piece)"
    and b: "piece < length (objects self)"
    and a: "fst (obj_move_piece self start end) = Applied"
    and l: "lands_on_last_rank (objects self ! piece) end" by simp_all
  from a obtain p' s0 where s': "grid_get (obj_board self) start = Inr (Some p')"
    and v': "obj_is_valid_move self p' start end = Inr (True, s0)"
    by (rule obj_move_piece_Applied)
  from s s' have "p' = piece" by simp
  with v' have v: "obj_is_valid_move self piece start end = Inr (True, s0)" by simp
  from obj_move_piece_effect[OF s v] obtain snapshot ext g2 where
    m: "obj_move_piece self start end =
             (Applied,
              s0\<lparr>objects := (if lands_on_last_rank ((objects self @ ext) ! piece) end
                              then (objects self @ ext)[piece := promote ((objects self @ ext) ! piece)]
                              else objects self @ ext),
                 obj_board := g2,
                 obj_move_history := obj_move_history self @ [snapshot]\<rparr>)"
    and e2: "grid_get g2 end = Inr (Some piece)"
    by blast
  from b have n: "(objects self @ ext) ! piece = objects self ! piece"
    by (simp add: nth_append)
  show "grid_get (obj_board (snd (obj_move_piece self start end))) end = Inr (Some piece)"
    using m e2 by simp
  show "is_king (objects (snd (obj_move_piece self start end)) ! piece)"
    using m n l b by (simp add: promote_def)
next
  show "never_demoted (objects self) (objects (snd (obj_move_piece self start end)))"
    by (rule obj_move_piece_never_demotes)
  show "never_demoted (objects self) (objects (snd (obj_undo_move self)))"
    by (simp add: obj_undo_move_def never_demoted_refl)
qed

text \<open>
  Claim C7. When an applied checkers move brings a white piece to row 0 or a black
  piece to row 7, the end cell holds that piece as a king afterwards. With the pieces as
  objects: the object that stood on the start cell is the one on the end cell, and its
  \<open>is_king\<close> is true. Neither \<open>move_piece\<close> nor \<open>undo_move\<close> takes the king flag from any
  object of the store or changes its colour: \<open>move_piece\<close> creates the copies of the
  snapshot and calls \<open>promote\<close>, \<open>undo_move\<close> writes to no piece. The row is compared
  as the caller gives it, as in the claim: \<open>-8\<close> and \<open>-1\<close> index rows 0 and 7 of the grid
  but do not equal 0 and 7.
\<close>

theorem C7_promotion:
  "(grid_get (board self) start = Inr (Some piece) \<and>
    fst (CheckersBoard_move_piece self start end) = Applied \<and>
    lands_on_last_rank piece end \<longrightarrow>
      grid_get (board (snd (CheckersBoard_move_piece self start end))) end =
        Inr (Some (piece\<lparr>is_king := True\<rparr>))) \<and>
   (grid_get (obj_board store) start = Inr (Some r) \<and> r < length (objects store) \<and>
    fst (obj_move_piece store start end) = Applied \<and>
    lands_on_last_rank (objects store ! r) end \<longrightarrow>
      grid_get (obj_board (snd (obj_move_piece store start end))) end = Inr (Some r) \<and>
      is_king (objects (snd (obj_move_piece store start end)) ! r)) \<and>
   never_demoted (objects store) (objects (snd (obj_move_piece store start end))) \<and>
   never_demoted (objects store) (objects (snd (obj_undo_move store)))"
  using CheckersBoard_move_piece_promotes[of self start piece "end"]
        obj_move_piece_promotes[of store start r "end"]
  by blast

theorem C7_promotion_witness:
  "fst (CheckersBoard_move_piece promotion_example (1, 2) (0, 1)) = Applied \<and>
   grid_get (board (snd (CheckersBoard_move_piece promotion_example (1, 2) (0, 1)))) (0, 1) =
     Inr (Some \<lparr>color = White, is_king = True\<rparr>) \<and>
   fst (obj_move_piece promotion_store (1, 2) (0, 1)) = Applied \<and>
   \<not> is_king (objects promotion_store ! 0) \<and>
   grid_get (obj_board (snd (obj_move_piece promotion_store (1, 2) (0, 1)))) (0, 1) = Inr (Some 0) \<and>
   is_king (objects (snd (obj_move_piece promotion_store (1, 2) (0, 1))) ! 0) \<and>
   is_king (objects king_store ! 0) \<and>
   is_king (objects (snd (obj_move_piece king_store (4, 3) (6, 5))) ! 0) \<and>
   is_king (objects (snd (obj_undo_move king_store)) ! 0)"
proof -
  have a: "grid_get (board promotion_example) (1, 2) = Inr (Some (new_CheckersPiece White))"
    by code_simp
  have b: "fst (CheckersBoard_move_piece promotion_example (1, 2) (0, 1)) = Applied"
    by code_simp
  have c: "lands_on_last_rank (new_CheckersPiece White) (0, 1)"
    by (simp add: lands_on_last_rank_def new_CheckersPiece_def)
  have d: "grid_get (obj_board promotion_store) (1, 2) = Inr (Some 0)"
    by code_simp
  have e: "fst (obj_move_piece promotion_store (1, 2) (0, 1)) = Applied"
    by code_simp
  have f: "objects promotion_store = [new_CheckersPiece White]"
    by (simp add: promotion_store_def)
  have k: "objects king_store = [promote (new_CheckersPiece White), new_CheckersPiece Black]"
    by (simp add: king_store_def)
  note t1 = C7_promotion[where self = promotion_example and start = "(1, 2)"
                     and piece = "new_CheckersPiece White" and ?end = "(0, 1)"
                     and store = promotion_store and r = 0]
  note t2 = C7_promotion[where self = promotion_example and start = "(4, 3)"
                     and piece = "new_CheckersPiece White" and ?end = "(6, 5)"
                     and store = king_store and r = 0]
  have 1: "grid_get (board (snd (CheckersBoard_move_piece promotion_example (1, 2) (0, 1)))) (0, 1) =
     Inr (Some \<lparr>color = White, is_king = True\<rparr>)"
    using t1 a b c by (simp add: new_CheckersPiece_def)
  have 2: "grid_get (obj_board (snd (obj_move_piece promotion_store (1, 2) (0, 1)))) (0, 1) = Inr (Some 0)
     \<and> is_king (objects (snd (obj_move_piece promotion_store (1, 2) (0, 1))) ! 0)"
    using t1 d e f c by simp
  have n: "\<not> is_king (objects promotion_store ! 0)"
    by (simp add: f new_CheckersPiece_def)
  have k0: "is_king (objects king_store ! 0)"
    by (simp add: k promote_def)
  have 3: "never_demoted (objects king_store)
             (objects (snd (obj_move_piece king_store (4, 3) (6, 5))))"
    and 4: "never_demoted (objects king_store) (objects (snd (obj_undo_move king_store)))"
    using t2 by blast+
  have 5: "is_king (objects (snd (obj_move_piece king_store (4, 3) (6, 5))) ! 0)"
    using 3 k0 by (simp add: never_demoted_def k)
  have 6: "is_king (objects (snd (obj_undo_move king_store)) ! 0)"
    using 4 k0 by (simp add: never_demoted_def k)
  from b 1 e n 2 k0 5 6 show ?thesis by blast
qed

section \<open>The two models of the checkers board agree\<close>

text \<open>
  The board with piece values is the board with piece objects seen through the store,
  as long as no piece object is referred to twice. That holds on the initial board and
  is kept by \<open>move_piece\<close> and \<open>undo_move\<close>: a move hands a reference from one cell to
  another, a snapshot consists of new objects, and \<open>undo_move\<close> takes the snapshot it
  installs out of the history.
\<close>

lemma unshared_once: "unshared s \<Longrightarrow> ref_total a s \<le> 1"
  by (simp add: unshared_def)

lemma unshared_bound: "unshared s \<Longrightarrow> 0 < ref_total a s \<Longrightarrow> a < length (objects s)"
  by (simp add: unshared_def)

lemma unsharedI:
  assumes "\<And>a. ref_total a s \<le> 1" and "\<And>a. 0 < ref_total a s \<Longrightarrow> a < length (objects s)"
  shows "unshared s"
  using assms by (simp add: unshared_def)

lemma view_length [simp]: "length (view h g) = length g"
  by (simp add: view_def)

lemma view_row_length [simp]: "r < length g \<Longrightarrow> length (view h g ! r) = length (g ! r)"
  by (simp add: view_def)

lemma view_nth: "r < length g \<Longrightarrow> k < length (g ! r) \<Longrightarrow>
    view h g ! r ! k = map_option (\<lambda>a. h ! a) (g ! r ! k)"
  by (simp add: view_def)

lemma cell_of_view: "cell_of (view h g) p = cell_of g p"
  by (auto simp: cell_of_def split: option.splits dest: py_index_SomeD)

lemma grid_get_view:
  "grid_get (view h g) p =
     (case grid_get g p of Inl e \<Rightarrow> Inl e | Inr c \<Rightarrow> Inr (map_option (\<lambda>a. h ! a) c))"
proof (cases "cell_of g p")
  case None
  then show ?thesis by (simp add: grid_get_cell_of cell_of_view)
next
  case (Some rk)
  obtain r k where rk: "rk = (r, k)" by (cases rk)
  from Some rk have c: "cell_of g p = Some (r, k)" by simp
  note b = cell_of_bounds[OF c]
  show ?thesis
    using c b by (simp add: grid_get_cell_of cell_of_view view_nth)
qed

lemma grid_set_view:
  "grid_set (view h g) p (map_option (\<lambda>a. h ! a) v) =
     (case grid_set g p v of Inl e \<Rightarrow> Inl e | Inr g' \<Rightarrow> Inr (view h g'))"
proof (cases "cell_of g p")
  case None
  then show ?thesis by (simp add: grid_set_cell_of cell_of_view)
next
  case (Some rk)
  obtain r k where rk: "rk = (r, k)" by (cases rk)
  from Some rk have c: "cell_of g p = Some (r, k)" by simp
  note b = cell_of_bounds[OF c]
  have "view h (g[r := (g ! r)[k := v]]) =
          (view h g)[r := (view h g ! r)[k := map_option (\<lambda>a. h ! a) v]]"
    using b by (simp add: view_def map_update)
  then show ?thesis
    using c by (simp add: grid_set_cell_of cell_of_view)
qed

lemma ref_count_set:
  assumes "grid_set g p v = Inr g'" and "grid_get g p = Inr c"
  shows "ref_count a g' + (if c = Some a then 1 else 0) =
         ref_count a g + (if v = Some a then 1 else 0)"
proof -
  from assms(1) obtain r k where pk: "cell_of g p = Some (r, k)" and g': "g' = g[r := (g ! r)[k := v]]"
    by (auto simp: grid_set_cell_of split: option.splits)
  note b = cell_of_bounds[OF pk]
  from assms(2) pk have c: "c = g ! r ! k" by (simp add: grid_get_cell_of)
  let ?f = "\<lambda>row. length (filter (\<lambda>c. c = Some a) row)"
  have 1: "ref_count a g' + ?f (g ! r) = ref_count a g + ?f ((g ! r)[k := v])"
    unfolding ref_count_def g' using sum_list_update_count[OF b(1), of ?f] by simp
  have 2: "?f ((g ! r)[k := v]) + (if c = Some a then 1 else 0) = ?f (g ! r) + (if v = Some a then 1 else 0)"
    unfolding c using filter_update_count[OF b(2), of "\<lambda>c. c = Some a" v] by simp
  from 1 2 show ?thesis by (simp split: if_splits)
qed

lemma ref_count_pos_iff:
  "0 < ref_count a g \<longleftrightarrow> (\<exists>row \<in> set g. Some a \<in> set row)"
  unfolding ref_count_def
  by (induction g) (auto simp: filter_empty_conv)

lemma ref_count_get:
  assumes "grid_get g p = Inr (Some a)"
  shows "0 < ref_count a g"
proof -
  from assms obtain r k where c: "cell_of g p = Some (r, k)" and v: "g ! r ! k = Some a"
    by (auto simp: grid_get_cell_of split: option.splits)
  note b = cell_of_bounds[OF c]
  from b v have "g ! r \<in> set g" and "Some a \<in> set (g ! r)"
    by (auto simp: in_set_conv_nth)
  then show ?thesis unfolding ref_count_pos_iff by blast
qed

lemma view_cong:
  assumes "\<And>a. 0 < ref_count a g \<Longrightarrow> h' ! a = h ! a"
  shows "view h' g = view h g"
  unfolding view_def
proof (intro map_cong refl)
  fix row c
  assume row: "row \<in> set g" and c: "c \<in> set row"
  show "map_option ((!) h') c = map_option ((!) h) c"
  proof (cases c)
    case None
    then show ?thesis by simp
  next
    case (Some a)
    with row c have "0 < ref_count a g" unfolding ref_count_pos_iff by blast
    with assms Some show ?thesis by simp
  qed
qed

lemma filter_Some_pos: "0 < length (filter (\<lambda>c. c = Some a) xs) \<longleftrightarrow> Some a \<in> set xs"
  by (induction xs) auto

lemma deepcopy_row_correct:
  assumes "deepcopy_row (memo, h) xs = (ys, memo', h')"
      and "\<And>a. length (filter (\<lambda>c. c = Some a) xs) \<le> 1"
      and "\<And>a. Some a \<in> set xs \<Longrightarrow> a < length h \<and> map_of memo a = None"
  shows "map (map_option (\<lambda>a. h' ! a)) ys = map (map_option (\<lambda>a. h ! a)) xs \<and>
         (\<forall>b. length (filter (\<lambda>c. c = Some b) ys) =
                (if length h \<le> b \<and> b < length h' then 1 else 0)) \<and>
         (\<forall>a. map_of memo' a = None \<longleftrightarrow> map_of memo a = None \<and> Some a \<notin> set xs) \<and>
         length h \<le> length h'"
  using assms
proof (induction xs arbitrary: memo h ys memo' h')
  case Nil
  then show ?case by simp
next
  case (Cons x xs)
  have le: "length (filter (\<lambda>c. c = Some a) xs) \<le> 1" for a
    using Cons.prems(2)[of a] by (simp split: if_splits)
  show ?case
  proof (cases x)
    case None
    obtain ys' where r: "deepcopy_row (memo, h) xs = (ys', memo', h')" and ys: "ys = None # ys'"
      using Cons.prems(1) None by (auto split: prod.splits)
    have p3: "\<And>a. Some a \<in> set xs \<Longrightarrow> a < length h \<and> map_of memo a = None"
      using Cons.prems(3) by simp
    from Cons.IH[OF r le p3] ys None show ?thesis by simp
  next
    case (Some a)
    from Cons.prems(3)[of a] Some have a: "a < length h" and m: "map_of memo a = None"
      by simp_all
    let ?h1 = "h @ [h ! a]" and ?m1 = "(a, length h) # memo"
    have c: "deepcopy_cell (memo, h) x = (Some (length h), ?m1, ?h1)"
      using Some m by simp
    obtain ys' where r: "deepcopy_row (?m1, ?h1) xs = (ys', memo', h')"
      and ys: "ys = Some (length h) # ys'"
      using Cons.prems(1) c by (auto split: prod.splits)
    have na: "Some a \<notin> set xs"
    proof
      assume "Some a \<in> set xs"
      then have "0 < length (filter (\<lambda>c. c = Some a) xs)"
        using filter_Some_pos[of a xs] by blast
      with Cons.prems(2)[of a] Some show False by simp
    qed
    have p3: "b < length ?h1 \<and> map_of ?m1 b = None" if "Some b \<in> set xs" for b
    proof -
      from that have "Some b \<in> set (x # xs)" by simp
      from Cons.prems(3)[OF this] have "b < length h" and "map_of memo b = None" by simp_all
      moreover from that na have "b \<noteq> a" by auto
      ultimately show ?thesis by simp
    qed
    from Cons.IH[OF r le p3]
    have ih1: "map (map_option (\<lambda>a. h' ! a)) ys' = map (map_option (\<lambda>a. ?h1 ! a)) xs"
      and ih2: "\<forall>b. length (filter (\<lambda>c. c = Some b) ys') =
                (if length ?h1 \<le> b \<and> b < length h' then 1 else 0)"
      and ih3: "\<forall>b. map_of memo' b = None \<longleftrightarrow> map_of ?m1 b = None \<and> Some b \<notin> set xs"
      and ih4: "length ?h1 \<le> length h'"
      by simp_all
    from deepcopy_row_extends[OF r] obtain ext where h': "h' = ?h1 @ ext" by blast
    have hd: "h' ! length h = h ! a"
      by (simp add: h' nth_append)
    have tl: "map (map_option (\<lambda>a. ?h1 ! a)) xs = map (map_option (\<lambda>a. h ! a)) xs"
    proof (intro map_cong refl)
      fix c assume cin: "c \<in> set xs"
      show "map_option (\<lambda>a. ?h1 ! a) c = map_option (\<lambda>a. h ! a) c"
      proof (cases c)
        case None
        then show ?thesis by simp
      next
        case (Some b)
        with cin have "Some b \<in> set (x # xs)" by simp
        from Cons.prems(3)[OF this] have "b < length h" by simp
        with Some show ?thesis by (simp add: nth_append)
      qed
    qed
    have 1: "map (map_option (\<lambda>a. h' ! a)) ys = map (map_option (\<lambda>a. h ! a)) (x # xs)"
      using ys Some hd ih1 tl by simp
    have 2: "\<forall>b. length (filter (\<lambda>c. c = Some b) ys) =
                (if length h \<le> b \<and> b < length h' then 1 else 0)"
    proof
      fix b
      define n where "n = length (filter (\<lambda>c. c = Some b) ys')"
      have t: "n = (if length ?h1 \<le> b \<and> b < length h' then 1 else 0)"
        unfolding n_def using ih2 by blast
      have u: "length (filter (\<lambda>c. c = Some b) ys) = (if b = length h then 1 else 0) + n"
        unfolding n_def ys by simp
      show "length (filter (\<lambda>c. c = Some b) ys) =
                (if length h \<le> b \<and> b < length h' then 1 else 0)"
        unfolding u t using ih4 by simp
    qed
    have 3: "\<forall>b. map_of memo' b = None \<longleftrightarrow> map_of memo b = None \<and> Some b \<notin> set (x # xs)"
      using ih3 Some by auto
    have 4: "length h \<le> length h'"
      using ih4 by simp
    from 1 2 3 4 show ?thesis by blast
  qed
qed

lemma ref_count_Cons:
  "ref_count a (row # rows) = length (filter (\<lambda>c. c = Some a) row) + ref_count a rows"
  by (simp add: ref_count_def)

lemma view_Cons: "view h (row # rows) = map (map_option (\<lambda>a. h ! a)) row # view h rows"
  by (simp add: view_def)

lemma deepcopy_rows_correct:
  assumes "deepcopy_rows (memo, h) g = (g', memo', h')"
      and "\<And>a. ref_count a g \<le> 1"
      and "\<And>a. 0 < ref_count a g \<Longrightarrow> a < length h \<and> map_of memo a = None"
  shows "view h' g' = view h g \<and>
         (\<forall>b. ref_count b g' = (if length h \<le> b \<and> b < length h' then 1 else 0)) \<and>
         length h \<le> length h'"
  using assms
proof (induction g arbitrary: memo h g' memo' h')
  case Nil
  then show ?case by (simp add: view_def ref_count_def)
next
  case (Cons row rows)
  obtain row' m1 h1 where c: "deepcopy_row (memo, h) row = (row', m1, h1)"
    by (cases "deepcopy_row (memo, h) row") auto
  obtain rows' where r: "deepcopy_rows (m1, h1) rows = (rows', memo', h')"
    and g': "g' = row' # rows'"
    using Cons.prems(1) c by (auto split: prod.splits)
  have row_le: "length (filter (\<lambda>c. c = Some a) row) \<le> 1" for a
    using Cons.prems(2)[of a] by (simp add: ref_count_Cons)
  have row_p3: "a < length h \<and> map_of memo a = None" if "Some a \<in> set row" for a
  proof -
    from that have "0 < length (filter (\<lambda>c. c = Some a) row)"
      using filter_Some_pos[of a row] by blast
    then have "0 < ref_count a (row # rows)" by (simp add: ref_count_Cons)
    then show ?thesis by (rule Cons.prems(3))
  qed
  from deepcopy_row_correct[OF c row_le row_p3]
  have r1: "map (map_option (\<lambda>a. h1 ! a)) row' = map (map_option (\<lambda>a. h ! a)) row"
    and r2: "\<forall>b. length (filter (\<lambda>c. c = Some b) row') =
                (if length h \<le> b \<and> b < length h1 then 1 else 0)"
    and r3: "\<forall>a. map_of m1 a = None \<longleftrightarrow> map_of memo a = None \<and> Some a \<notin> set row"
    and r4: "length h \<le> length h1"
    by simp_all
  from deepcopy_row_extends[OF c] obtain e1 where h1: "h1 = h @ e1" by blast
  from deepcopy_rows_extends[OF r] obtain e2 where h': "h' = h1 @ e2" by blast
  have rows_le: "ref_count a rows \<le> 1" for a
    using Cons.prems(2)[of a] by (simp add: ref_count_Cons)
  have rows_p3: "a < length h1 \<and> map_of m1 a = None" if "0 < ref_count a rows" for a
  proof -
    from that have pos: "0 < ref_count a (row # rows)" by (simp add: ref_count_Cons)
    from that Cons.prems(2)[of a] have "length (filter (\<lambda>c. c = Some a) row) = 0"
      unfolding ref_count_Cons by linarith
    then have "Some a \<notin> set row" using filter_Some_pos[of a row] by linarith
    with Cons.prems(3)[OF pos] r3 r4 show ?thesis by auto
  qed
  from Cons.IH[OF r rows_le rows_p3]
  have i1: "view h' rows' = view h1 rows"
    and i2: "\<forall>b. ref_count b rows' = (if length h1 \<le> b \<and> b < length h' then 1 else 0)"
    and i3: "length h1 \<le> length h'"
    by simp_all
  have head: "map (map_option (\<lambda>a. h' ! a)) row' = map (map_option (\<lambda>a. h1 ! a)) row'"
  proof (intro map_cong refl)
    fix c assume cin: "c \<in> set row'"
    show "map_option (\<lambda>a. h' ! a) c = map_option (\<lambda>a. h1 ! a) c"
    proof (cases c)
      case None
      then show ?thesis by simp
    next
      case (Some b)
      with cin have "0 < length (filter (\<lambda>c. c = Some b) row')"
        using filter_Some_pos[of b row'] by blast
      with r2 have "b < length h1" by (auto split: if_splits)
      with Some show ?thesis by (simp add: h' nth_append)
    qed
  qed
  have tail: "view h1 rows = view h rows"
  proof (rule view_cong)
    fix a assume "0 < ref_count a rows"
    then have "0 < ref_count a (row # rows)" by (simp add: ref_count_Cons)
    from Cons.prems(3)[OF this] show "h1 ! a = h ! a" by (simp add: h1 nth_append)
  qed
  have 1: "view h' g' = view h (row # rows)"
    using g' head r1 i1 tail by (simp add: view_Cons)
  have 2: "\<forall>b. ref_count b g' = (if length h \<le> b \<and> b < length h' then 1 else 0)"
  proof
    fix b
    define n where "n = length (filter (\<lambda>c. c = Some b) row')"
    have t: "n = (if length h \<le> b \<and> b < length h1 then 1 else 0)"
      unfolding n_def using r2 by blast
    have t2: "ref_count b rows' = (if length h1 \<le> b \<and> b < length h' then 1 else 0)"
      using i2 by blast
    have u: "ref_count b g' = n + ref_count b rows'"
      unfolding n_def g' by (rule ref_count_Cons)
    show "ref_count b g' = (if length h \<le> b \<and> b < length h' then 1 else 0)"
      unfolding u t t2 using r4 i3 by simp
  qed
  have 3: "length h \<le> length h'" using r4 i3 by simp
  from 1 2 3 show ?case by blast
qed

lemma obj_deepcopy_correct:
  assumes "obj_deepcopy h g = (g', h')"
      and "\<And>a. ref_count a g \<le> 1"
      and "\<And>a. 0 < ref_count a g \<Longrightarrow> a < length h"
  shows "view h' g' = view h g"
    and "\<And>b. ref_count b g' = (if length h \<le> b \<and> b < length h' then 1 else 0)"
    and "length h \<le> length h'"
proof -
  obtain m2 where r: "deepcopy_rows ([], h) g = (g', m2, h')"
    using assms(1) by (auto simp: obj_deepcopy_def split: prod.splits)
  have p3: "\<And>a. 0 < ref_count a g \<Longrightarrow> a < length h \<and> map_of [] a = None"
    using assms(3) by simp
  note c = deepcopy_rows_correct[OF r assms(2) p3]
  from c show "view h' g' = view h g" by simp
  from c show "length h \<le> length h'" by simp
  fix b
  from c show "ref_count b g' = (if length h \<le> b \<and> b < length h' then 1 else 0)" by simp
qed

lemma view_board_simps [simp]:
  "board (view_board s) = view (objects s) (obj_board s)"
  "move_history (view_board s) = map (view (objects s)) (obj_move_history s)"
  by (simp_all add: view_board_def)

lemma view_board_obj_board:
  "view_board (s\<lparr>obj_board := g\<rparr>) = (view_board s)\<lparr>board := view (objects s) g\<rparr>"
  by (simp add: view_board_def)

lemma grid_set_view_None:
  "grid_set (view h g) p None =
     (case grid_set g p None of Inl e \<Rightarrow> Inl e | Inr g' \<Rightarrow> Inr (view h g'))"
  using grid_set_view[of h g p None] by simp

lemma grid_set_view_Some:
  "grid_set (view h g) p (Some (h ! a)) =
     (case grid_set g p (Some a) of Inl e \<Rightarrow> Inl e | Inr g' \<Rightarrow> Inr (view h g'))"
  using grid_set_view[of h g p "Some a"] by simp

lemma obj_is_valid_move_view:
  "CheckersBoard_is_valid_move (view_board s) (objects s ! a) start end =
     (case obj_is_valid_move s a start end of
        Inl e \<Rightarrow> Inl e
      | Inr (ok, s0) \<Rightarrow> Inr (ok, view_board s0))"
  by (auto simp: CheckersBoard_is_valid_move_def obj_is_valid_move_def Let_def
                 grid_get_view grid_set_view_None view_board_obj_board
           split: sum.splits option.splits)

lemma view_update_absent:
  assumes "ref_count a g = 0"
  shows "view (h[a := x]) g = view h g"
proof (rule view_cong)
  fix b assume "0 < ref_count b g"
  with assms have "b \<noteq> a" by auto
  then show "h[a := x] ! b = h ! b" by simp
qed

lemma view_update_at:
  assumes at: "grid_get g p = Inr (Some a)" and uniq: "ref_count a g \<le> 1"
      and bound: "a < length h"
  shows "grid_set (view h g) p (Some x) = Inr (view (h[a := x]) g)"
proof -
  from at obtain g0 where g0: "grid_set g p None = Inr g0"
    using grid_set_of_get by blast
  from ref_count_set[OF g0 at, of a] uniq have z: "ref_count a g0 = 0" by simp
  have again: "grid_set g0 p (Some a) = Inr g"
    using grid_set_set_same[OF g0, of "Some a"] grid_set_same_value[OF at] by simp
  let ?h' = "h[a := x]"
  have "grid_set (view ?h' g0) p (Some (?h' ! a)) = Inr (view ?h' g)"
    using grid_set_view_Some[of ?h' g0 p a] again by simp
  then have 1: "grid_set (view h g0) p (Some x) = Inr (view ?h' g)"
    using bound by (simp add: view_update_absent[OF z])
  have 2: "grid_set (view h g) p None = Inr (view h g0)"
    using grid_set_view_None[of h g p] g0 by simp
  from grid_set_set_same[OF 2, of "Some x"] 1 show ?thesis by simp
qed

lemma obj_is_valid_move_False:
  assumes "obj_is_valid_move self piece start end = Inr (False, s0)"
  shows "s0 = self"
  using assms
  by (auto simp: obj_is_valid_move_def Let_def split: sum.splits option.splits if_splits)

lemma unshared_after_validation:
  assumes u: "unshared s"
      and v: "obj_is_valid_move s a start end = Inr (True, s0)"
  shows "unshared s0"
proof -
  from obj_is_valid_move_True(2)[OF v]
  consider "s0 = s"
    | jumped g where "grid_get (obj_board s) (midpoint start end) = Inr (Some jumped)"
        "grid_set (obj_board s) (midpoint start end) None = Inr g"
        "s0 = s\<lparr>obj_board := g\<rparr>"
    by blast
  then show ?thesis
  proof cases
    case 1
    with u show ?thesis by simp
  next
    case 2
    have le: "ref_count b g \<le> ref_count b (obj_board s)" for b
      using ref_count_set[OF 2(2) 2(1), of b] by (simp split: if_splits)
    have t: "ref_total b s0 \<le> ref_total b s" for b
      using le[of b] by (simp add: ref_total_def 2(3))
    show ?thesis
    proof (rule unsharedI)
      fix b
      from unshared_once[OF u, of b] t[of b] show "ref_total b s0 \<le> 1" by linarith
    next
      fix b
      assume "0 < ref_total b s0"
      with t[of b] have "0 < ref_total b s" by linarith
      from unshared_bound[OF u this] show "b < length (objects s0)" by (simp add: 2(3))
    qed
  qed
qed

lemma obj_move_piece_view_applied:
  assumes u: "unshared s"
      and s: "grid_get (obj_board s) start = Inr (Some a)"
      and v: "obj_is_valid_move s a start end = Inr (True, s0)"
  shows "obj_move_piece s start end =
           (Applied, snd (obj_move_piece s start end)) \<and>
         CheckersBoard_move_piece (view_board s) start end =
           (Applied, view_board (snd (obj_move_piece s start end))) \<and>
         unshared (snd (obj_move_piece s start end))"
proof -
  let ?h = "objects s"
  note o = obj_is_valid_move_objects[OF v]
  have u0: "unshared s0" by (rule unshared_after_validation[OF u v])
  from obj_is_valid_move_True_cells[OF s v]
  have s0s: "grid_get (obj_board s0) start = Inr (Some a)"
    and s0e: "grid_get (obj_board s0) end = Inr None" by simp_all
  from move_cells[OF s0s s0e]
  obtain g1 g2 where g1: "grid_set (obj_board s0) end (Some a) = Inr g1"
    and g2: "grid_set g1 start None = Inr g2"
    and get2: "\<forall>q. grid_get g2 q =
            (if cell_of (obj_board s0) q = cell_of (obj_board s0) start then Inr None
             else if cell_of (obj_board s0) q = cell_of (obj_board s0) end then Inr (Some a)
             else grid_get (obj_board s0) q)"
    and ne: "cell_of (obj_board s0) start \<noteq> cell_of (obj_board s0) end"
    by blast
  have e2: "grid_get g2 end = Inr (Some a)"
    using get2[rule_format, of "end"] ne by simp
  have s1: "grid_get g1 start = Inr (Some a)"
    using grid_get_set_cell[OF g1, of start] ne s0s by simp
  \<comment> \<open>the references on the grid are those of before, each as often\<close>
  have cnt2: "ref_count b g2 = ref_count b (obj_board s0)" for b
    using ref_count_set[OF g1 s0e, of b] ref_count_set[OF g2 s1, of b]
    by (simp split: if_splits)
  obtain snapshot h1 where d: "obj_deepcopy (objects s0) (obj_board s0) = (snapshot, h1)"
    by (cases "obj_deepcopy (objects s0) (obj_board s0)")
  define H where "H b = sum_list (map (ref_count b) (obj_move_history s))" for b
  have t0: "ref_total b s0 = ref_count b (obj_board s0) + H b" for b
    by (simp add: ref_total_def H_def o)
  have tot: "ref_count b (obj_board s0) + H b \<le> 1" for b
    using unshared_once[OF u0, of b] by (simp add: t0)
  have bnd: "b < length ?h" if "0 < ref_count b (obj_board s0) + H b" for b
    using unshared_bound[OF u0, of b] that by (simp add: t0 o)
  have dc1: "ref_count b (obj_board s0) \<le> 1" for b
    using tot[of b] by linarith
  have dc2: "b < length (objects s0)" if "0 < ref_count b (obj_board s0)" for b
  proof -
    from that have "0 < ref_count b (obj_board s0) + H b" by linarith
    from bnd[OF this] show ?thesis by (simp add: o)
  qed
  note dc = obj_deepcopy_correct[OF d dc1 dc2]
  from obj_deepcopy_extends[OF d] obtain ext where h1: "h1 = ?h @ ext" by (auto simp: o)
  have apos: "0 < ref_count a (obj_board s0)" by (rule ref_count_get[OF s0s])
  have al: "a < length ?h"
  proof -
    from apos have "0 < ref_count a (obj_board s0) + H a" by linarith
    then show ?thesis by (rule bnd)
  qed
  have h1a: "h1 ! a = ?h ! a"
    using al by (simp add: h1 nth_append)
  let ?hf = "if lands_on_last_rank (h1 ! a) end then h1[a := promote (h1 ! a)] else h1"
  have m: "obj_move_piece s start end =
           (Applied, s0\<lparr>objects := ?hf, obj_board := g2,
                         obj_move_history := obj_move_history s0 @ [snapshot]\<rparr>)"
    by (rule obj_move_piece_valid[OF s v d g1 g2])
  \<comment> \<open>the value side\<close>
  have vs: "grid_get (board (view_board s)) start = Inr (Some (?h ! a))"
    using s by (simp add: grid_get_view)
  have vv: "CheckersBoard_is_valid_move (view_board s) (?h ! a) start end = Inr (True, view_board s0)"
    using v by (simp add: obj_is_valid_move_view)
  have vg1: "grid_set (board (view_board s0)) end (Some (?h ! a)) = Inr (view ?h g1)"
    using g1 grid_set_view_Some[of ?h "obj_board s0" "end" a] by (simp add: o)
  have vg2: "grid_set (view ?h g1) start None = Inr (view ?h g2)"
    using g2 grid_set_view_None[of ?h g1 start] by simp
  note vm = CheckersBoard_move_piece_valid[OF vs vv vg1 vg2]
  \<comment> \<open>views under the final store\<close>
  have via1: "view h1 g = view ?h g" if "\<And>b. 0 < ref_count b g \<Longrightarrow> b < length ?h" for g
  proof (rule view_cong)
    fix b assume "0 < ref_count b g"
    from that[OF this] show "h1 ! b = ?h ! b" by (simp add: h1 nth_append)
  qed
  have g2b: "b < length ?h" if "0 < ref_count b g2" for b
  proof -
    from that have "0 < ref_count b (obj_board s0) + H b" unfolding cnt2 by linarith
    then show ?thesis by (rule bnd)
  qed
  have a_g2: "ref_count a g2 \<le> 1"
    using dc1[of a] by (simp add: cnt2)
  have board_eq: "view ?hf g2 =
      (if lands_on_last_rank (?h ! a) end then promote_at (view ?h g2) end else view ?h g2)"
  proof (cases "lands_on_last_rank (?h ! a) end")
    case False
    then show ?thesis using via1[of g2] g2b by (simp add: h1a)
  next
    case True
    have "a < length h1" using al by (simp add: h1)
    from view_update_at[OF e2 a_g2 this, of "promote (h1 ! a)"]
    have "grid_set (view ?h g2) end (Some (promote (?h ! a))) =
            Inr (view (h1[a := promote (h1 ! a)]) g2)"
      using via1[of g2] g2b by (simp add: h1a)
    moreover have "grid_get (view ?h g2) end = Inr (Some (?h ! a))"
      using e2 by (simp add: grid_get_view)
    ultimately have "promote_at (view ?h g2) end = view (h1[a := promote (h1 ! a)]) g2"
      by (simp add: promote_at_def)
    with True show ?thesis by (simp add: h1a)
  qed
  have in_hist: "ref_count b g \<le> H b" if "g \<in> set (obj_move_history s)" for g b
    unfolding H_def using that by (simp add: member_le_sum_list)
  have a_hist: "ref_count a g = 0" if "g \<in> set (obj_move_history s)" for g
    using in_hist[OF that, of a] apos tot[of a] by linarith
  have hist_b: "b < length ?h" if "g \<in> set (obj_move_history s)" "0 < ref_count b g" for g b
  proof -
    from in_hist[OF that(1), of b] that(2) have "0 < ref_count b (obj_board s0) + H b" by linarith
    then show ?thesis by (rule bnd)
  qed
  have hist_eq: "view ?hf g = view ?h g" if "g \<in> set (obj_move_history s)" for g
  proof -
    have "view ?hf g = view h1 g"
      using view_update_absent[OF a_hist[OF that]] by simp
    also have "\<dots> = view ?h g"
      using via1[of g] hist_b[OF that] by simp
    finally show ?thesis .
  qed
  have a_snap: "ref_count a snapshot = 0"
    using dc(2)[of a] al by (simp add: o)
  have snap_eq: "view ?hf snapshot = view ?h (obj_board s0)"
  proof -
    have "view ?hf snapshot = view h1 snapshot"
      using view_update_absent[OF a_snap] by simp
    with dc(1) show ?thesis by (simp add: o)
  qed
  let ?s' = "s0\<lparr>objects := ?hf, obj_board := g2,
                  obj_move_history := obj_move_history s0 @ [snapshot]\<rparr>"
  have view_eq: "view_board ?s' =
      (view_board s0)\<lparr>board := (if lands_on_last_rank (?h ! a) end
                                   then promote_at (view ?h g2) end else view ?h g2),
                        move_history := move_history (view_board s0) @ [board (view_board s0)]\<rparr>"
    using board_eq snap_eq hist_eq
    by (simp add: view_board_def o cong: map_cong)
  have t': "ref_total b ?s' = ref_count b (obj_board s0) + H b + ref_count b snapshot" for b
    by (simp add: ref_total_def H_def o cnt2)
  have sn: "ref_count b snapshot = (if length ?h \<le> b \<and> b < length h1 then 1 else 0)" for b
    using dc(2)[of b] by (simp add: o)
  have un: "unshared ?s'"
  proof (rule unsharedI)
    fix b
    show "ref_total b ?s' \<le> 1"
    proof (cases "b < length ?h")
      case True
      with sn[of b] have "ref_count b snapshot = 0" by simp
      with tot[of b] show ?thesis unfolding t' by linarith
    next
      case False
      with bnd[of b] have "\<not> 0 < ref_count b (obj_board s0) + H b" by blast
      moreover from sn[of b] have "ref_count b snapshot \<le> 1" by simp
      ultimately show ?thesis unfolding t' by linarith
    qed
  next
    fix b
    assume "0 < ref_total b ?s'"
    then have "0 < ref_count b (obj_board s0) + H b \<or> 0 < ref_count b snapshot"
      unfolding t' by linarith
    then have "b < length h1"
    proof
      assume "0 < ref_count b (obj_board s0) + H b"
      from bnd[OF this] dc(3) show ?thesis by (simp add: o)
    next
      assume "0 < ref_count b snapshot"
      with sn[of b] show ?thesis by (simp split: if_splits)
    qed
    then show "b < length (objects ?s')" by simp
  qed
  from m vm view_eq un show ?thesis
    by (simp add: h1a lands_on_last_rank_def)
qed

theorem obj_move_piece_simulates:
  assumes u: "unshared s"
  shows "CheckersBoard_move_piece (view_board s) start end =
           (fst (obj_move_piece s start end), view_board (snd (obj_move_piece s start end))) \<and>
         unshared (snd (obj_move_piece s start end))"
proof (cases "grid_get (obj_board s) start")
  case (Inl e)
  then have "grid_get (board (view_board s)) start = Inl e"
    by (simp add: grid_get_view)
  with Inl u show ?thesis
    by (simp add: obj_move_piece_def CheckersBoard_move_piece_def)
next
  case (Inr c)
  show ?thesis
  proof (cases c)
    case None
    with Inr have "grid_get (board (view_board s)) start = Inr None"
      by (simp add: grid_get_view)
    with Inr None u show ?thesis
      by (simp add: obj_move_piece_def CheckersBoard_move_piece_def)
  next
    case (Some a)
    with Inr have s: "grid_get (obj_board s) start = Inr (Some a)" by simp
    then have vs: "grid_get (board (view_board s)) start = Inr (Some (objects s ! a))"
      by (simp add: grid_get_view)
    show ?thesis
    proof (cases "obj_is_valid_move s a start end")
      case (Inl e)
      then have "CheckersBoard_is_valid_move (view_board s) (objects s ! a) start end = Inl e"
        by (simp add: obj_is_valid_move_view)
      with Inl s vs u show ?thesis
        by (simp add: obj_move_piece_def CheckersBoard_move_piece_def)
    next
      case (Inr r)
      obtain ok s0 where r: "r = (ok, s0)" by (cases r)
      show ?thesis
      proof (cases ok)
        case True
        with Inr r have v: "obj_is_valid_move s a start end = Inr (True, s0)" by simp
        from obj_move_piece_view_applied[OF u s v] show ?thesis
          by (metis fst_conv)
      next
        case False
        with Inr r have v: "obj_is_valid_move s a start end = Inr (False, s0)" by simp
        from obj_is_valid_move_False[OF v] have s0: "s0 = s" .
        from v s0 have vv: "CheckersBoard_is_valid_move (view_board s) (objects s ! a) start end =
            Inr (False, view_board s)"
          by (simp add: obj_is_valid_move_view)
        from CheckersBoard_move_piece_invalid[OF vs vv]
        have "CheckersBoard_move_piece (view_board s) start end = (Rejected, view_board s)" .
        moreover from s v s0 have "obj_move_piece s start end = (Rejected, s)"
          by (simp add: obj_move_piece_def)
        ultimately show ?thesis using u by simp
      qed
    qed
  qed
qed

lemma sum_list_butlast_last:
  fixes f :: "'a \<Rightarrow> nat"
  assumes "xs \<noteq> []"
  shows "f (last xs) + sum_list (map f (butlast xs)) = sum_list (map f xs)"
proof -
  from assms have "xs = butlast xs @ [last xs]" by simp
  then have "sum_list (map f xs) = sum_list (map f (butlast xs @ [last xs]))" by simp
  then show ?thesis by simp
qed

theorem obj_undo_move_simulates:
  assumes u: "unshared s"
  shows "CheckersBoard_undo_move (view_board s) =
           (fst (obj_undo_move s), view_board (snd (obj_undo_move s))) \<and>
         unshared (snd (obj_undo_move s))"
proof (cases "obj_move_history s = []")
  case True
  with u show ?thesis
    by (simp add: obj_undo_move_def CheckersBoard_undo_move_def)
next
  case False
  let ?s' = "s\<lparr>obj_board := last (obj_move_history s),
                 obj_move_history := butlast (obj_move_history s)\<rparr>"
  have t: "ref_total b ?s' \<le> ref_total b s" for b
    using sum_list_butlast_last[OF False, of "ref_count b"]
    by (simp add: ref_total_def)
  have un: "unshared ?s'"
  proof (rule unsharedI)
    fix b
    from t[of b] unshared_once[OF u, of b] show "ref_total b ?s' \<le> 1" by linarith
  next
    fix b
    assume "0 < ref_total b ?s'"
    with t[of b] have "0 < ref_total b s" by linarith
    from unshared_bound[OF u this] show "b < length (objects ?s')" by simp
  qed
  have v: "view_board ?s' =
      (view_board s)\<lparr>board := last (move_history (view_board s)),
                       move_history := butlast (move_history (view_board s))\<rparr>"
    using False by (simp add: view_board_def last_map map_butlast)
  from False v un show ?thesis
    by (simp add: obj_undo_move_def CheckersBoard_undo_move_def)
qed

lemma row_refs_count:
  "count_list (concat (map (\<lambda>c. case c of None \<Rightarrow> [] | Some a \<Rightarrow> [a]) row)) a =
     length (filter (\<lambda>c. c = Some a) row)"
  by (induction row) (auto split: option.splits)

lemma count_list_append: "count_list (xs @ ys) a = count_list xs a + count_list ys a"
  by (induction xs) auto

lemma ref_count_refs: "ref_count a g = count_list (refs g) a"
  unfolding ref_count_def refs_def
  by (induction g) (simp_all add: count_list_append row_refs_count)

lemma distinct_count_list: "distinct xs \<Longrightarrow> count_list xs a \<le> 1"
  by (induction xs) (auto simp: count_list_0_iff)

lemma unshared_from_refs:
  assumes "distinct (refs (obj_board s))"
      and "\<forall>a \<in> set (refs (obj_board s)). a < length (objects s)"
      and "obj_move_history s = []"
  shows "unshared s"
proof (rule unsharedI)
  fix a
  show "ref_total a s \<le> 1"
    using distinct_count_list[OF assms(1), of a] assms(3)
    by (simp add: ref_total_def ref_count_refs)
next
  fix a
  assume "0 < ref_total a s"
  then have "count_list (refs (obj_board s)) a \<noteq> 0"
    using assms(3) by (simp add: ref_total_def ref_count_refs)
  then have "a \<in> set (refs (obj_board s))"
    by (simp add: count_list_0_iff)
  with assms(2) show "a < length (objects s)" by blast
qed

lemma CheckersStore_init_view: "view_board CheckersStore_init = CheckersBoard_init"
  by code_simp

lemma CheckersStore_init_unshared: "unshared CheckersStore_init"
proof (rule unshared_from_refs)
  show "distinct (refs (obj_board CheckersStore_init))" by code_simp
  show "\<forall>a \<in> set (refs (obj_board CheckersStore_init)). a < length (objects CheckersStore_init)"
    by code_simp
  show "obj_move_history CheckersStore_init = []" by (simp add: CheckersStore_init_def)
qed

theorem calls_simulate:
  assumes "unshared s"
  shows "view_board (fold obj_call calls s) = fold value_call calls (view_board s) \<and>
         unshared (fold obj_call calls s)"
  using assms
proof (induction calls arbitrary: s)
  case Nil
  then show ?case by simp
next
  case (Cons c calls)
  have step: "view_board (obj_call c s) = value_call c (view_board s) \<and> unshared (obj_call c s)"
  proof (cases c)
    case (Move start "end")
    with obj_move_piece_simulates[OF Cons.prems, of start "end"] show ?thesis by simp
  next
    case Undo
    with obj_undo_move_simulates[OF Cons.prems] show ?thesis by simp
  qed
  with Cons.IH[of "obj_call c s"] show ?case by simp
qed

theorem value_model_exact:
  "view_board (fold obj_call calls CheckersStore_init) = fold value_call calls CheckersBoard_init"
  using calls_simulate[OF CheckersStore_init_unshared, of calls]
  by (simp add: CheckersStore_init_view)

end
